theory Spec2Isabelle
  imports Complex_Main
begin

section \<open>The consumption optimiser of the dashboard: \<open>generateOptimizationData\<close>\<close>

text \<open>
  The function under study is \<open>generateOptimizationData\<close> of the dashboard page. It
  derives the discount factor and the Euler growth rate, searches the initial consumption
  \<open>C1\<close> by 50 bisection steps on the bracket \<open>[1% K0, 15% K0]\<close>, and then
  replays the trajectory once more to build the series handed to the charts.

  The function is modelled twice. The first model reads every \<open>number\<close> as a real
  number: it is the arithmetic the code writes down, without rounding, overflow,
  infinities or NaN, and it carries the results about the structure of the computation
  (which steps run, in which order, on which values). The second model keeps the
  numbers of the program: IEEE doubles with rounding to nearest, the two infinities and
  NaN. It carries the results that depend on the values themselves. The two ages are
  whole numbers (the sliders step by 1) and are \<open>int\<close> in both models, as are the
  loop counters.
\<close>

section \<open>The model over the real numbers\<close>

subsection \<open>Data\<close>

text \<open>The parameter object (\<open>typeof defaultParams\<close>).\<close>

record params =
  initialCapital :: real
  annualReturn :: real
  discountRate :: real
  riskAversion :: real
  lifeExpectancy :: int
  currentAge :: int
  inheritanceTarget :: real

text \<open>One entry of the returned array: \<open>{ period, capital, consumption }\<close>.\<close>

record DataPoint =
  period :: int
  capital :: real
  consumption :: real

text \<open>
  The local variables \<open>K\<close>, \<open>C1\<close>, \<open>low\<close> and \<open>high\<close> that the
  bisection loop assigns.
\<close>

record vars =
  v_K :: real
  v_C1 :: real
  v_low :: real
  v_high :: real

text \<open>
  The error kinds the specification names. The source function has no \<open>throw\<close>
  and arithmetic on numbers raises nothing, so none of them is ever produced.
\<close>

datatype error = InvalidParameter | InfeasibleTarget | NonPositiveConsumption

subsection \<open>Discount factor and growth rate\<close>

text \<open>
  \<open>const beta = 1 / (1 + rho)\<close> and
  \<open>const growthRate = Math.pow(beta * (1 + r), 1 / sigma)\<close>.
  \<open>Math.pow\<close> with a positive base is the real power \<open>powr\<close>; the base is
  positive and \<open>sigma\<close> is non-zero whenever \<open>r > -1\<close>, \<open>rho > -1\<close> and
  \<open>sigma > 0\<close>. Outside that domain JavaScript can yield an infinity or NaN, which a
  real number cannot express; there only the shape of the returned series (how many
  entries it has and their period indices), which depends on the two ages alone, carries
  over from the model to the code.
\<close>

definition beta :: "params \<Rightarrow> real" where
  "beta params = 1 / (1 + discountRate params)"

definition growthRate :: "params \<Rightarrow> real" where
  "growthRate params =
     (beta params * (1 + annualReturn params)) powr (1 / riskAversion params)"

subsection \<open>The inner loop: terminal capital of a candidate\<close>

text \<open>
  \<open>for (let t = 0; t < T; t++) { const C = C1 * Math.pow(growthRate, t); K = (K - C) * (1 + r) }\<close>.
  The exponent \<open>t\<close> is a non-negative whole number, for which \<open>Math.pow\<close> is the
  iterated product (and 1 at \<open>t = 0\<close>).
\<close>

function simulate_loop :: "real \<Rightarrow> real \<Rightarrow> real \<Rightarrow> int \<Rightarrow> int \<Rightarrow> real \<Rightarrow> real" where
  "simulate_loop C1 g r T t K =
     (if t < T then
        (let C = C1 * g ^ nat t
         in simulate_loop C1 g r T (t + 1) ((K - C) * (1 + r)))
      else K)"
  by pat_completeness auto
termination
  by (relation "measure (\<lambda>(C1, g, r, T, t, K). nat (T - t))") auto

declare simulate_loop.simps [simp del]

text \<open>
  The value of \<open>K\<close> after the inner loop, started from \<open>K = params.initialCapital\<close>
  with the candidate \<open>C1\<close>.
\<close>

definition terminal_capital :: "params \<Rightarrow> real \<Rightarrow> real" where
  "terminal_capital params C1 =
     simulate_loop C1 (growthRate params) (annualReturn params)
       (lifeExpectancy params - currentAge params) 0 (initialCapital params)"

subsection \<open>The bisection loop\<close>

text \<open>
  \<open>for (let i = 0; i < 50; i++) { C1 = (low + high) / 2; K = params.initialCapital;
  (inner loop); if (K > params.inheritanceTarget) { low = C1 } else { high = C1 } }\<close>
\<close>

definition bisect_body :: "params \<Rightarrow> vars \<Rightarrow> vars" where
  "bisect_body params s =
     (let C1 = (v_low s + v_high s) / 2;
          K = terminal_capital params C1
      in if K > inheritanceTarget params
         then s\<lparr>v_K := K, v_C1 := C1, v_low := C1\<rparr>
         else s\<lparr>v_K := K, v_C1 := C1, v_high := C1\<rparr>)"

function bisect_loop :: "params \<Rightarrow> int \<Rightarrow> vars \<Rightarrow> vars" where
  "bisect_loop params i s =
     (if i < 50 then bisect_loop params (i + 1) (bisect_body params s) else s)"
  by pat_completeness auto
termination
  by (relation "measure (\<lambda>(params, i, s). nat (50 - i))") auto

declare bisect_loop.simps [simp del]

text \<open>
  The variables when the bisection loop is left:
  \<open>let K = params.initialCapital; let C1 = K * 0.04; let low = K * 0.01; let high = K * 0.15\<close>,
  then the loop.
\<close>

definition solve :: "params \<Rightarrow> vars" where
  "solve params =
     (let K = initialCapital params
      in bisect_loop params 0
           \<lparr>v_K = K, v_C1 = K * (4 / 100), v_low = K * (1 / 100), v_high = K * (15 / 100)\<rparr>)"

subsection \<open>The series loop\<close>

text \<open>
  \<open>for (let t = 0; t <= T; t++) { const consumption = C1 * Math.pow(growthRate, t);
  data.push({ period: t, capital: Math.max(0, K), consumption: consumption });
  K = (K - consumption) * (1 + r) }\<close>
\<close>

function series_loop ::
  "real \<Rightarrow> real \<Rightarrow> real \<Rightarrow> int \<Rightarrow> int \<Rightarrow> real \<times> DataPoint list \<Rightarrow> real \<times> DataPoint list" where
  "series_loop C1 g r T t (K, data) =
     (if t \<le> T then
        (let consumption = C1 * g ^ nat t;
             data' = data @ [\<lparr>period = t, capital = max 0 K, consumption = consumption\<rparr>]
         in series_loop C1 g r T (t + 1) ((K - consumption) * (1 + r), data'))
      else (K, data))"
  by pat_completeness auto
termination
  by (relation "measure (\<lambda>(C1, g, r, T, t, s). nat (T + 1 - t))") auto

declare series_loop.simps [simp del]

subsection \<open>The whole function\<close>

definition generateOptimizationData :: "params \<Rightarrow> DataPoint list" where
  "generateOptimizationData params =
     (let T = lifeExpectancy params - currentAge params;
          r = annualReturn params;
          C1 = v_C1 (solve params)
      in snd (series_loop C1 (growthRate params) r T 0 (initialCapital params, [])))"

text \<open>
  What a caller observes: the function always returns its array, it has no failing exit.
\<close>

definition generateOptimizationData_outcome :: "params \<Rightarrow> error + DataPoint list" where
  "generateOptimizationData_outcome params = Inr (generateOptimizationData params)"

text \<open>
  The capital the returned series ends with (the entry of period \<open>T\<close>).
\<close>

definition final_capital :: "params \<Rightarrow> real" where
  "final_capital params = capital (last (generateOptimizationData params))"

subsection \<open>Notions of the specification used to state the claims\<close>

text \<open>
  The domain the specification calls validated: none of
  \<open>initial_capital < 0\<close>, \<open>inheritance_target < 0\<close>,
  \<open>life_expectancy <= current_age\<close>, \<open>risk_aversion <= 0\<close>,
  \<open>annual_return <= -1\<close>, \<open>discount_rate <= -1\<close>.
\<close>

definition validated :: "params \<Rightarrow> bool" where
  "validated params \<longleftrightarrow>
     0 \<le> initialCapital params \<and> 0 \<le> inheritanceTarget params \<and>
     currentAge params < lifeExpectancy params \<and> 0 < riskAversion params \<and>
     - 1 < annualReturn params \<and> - 1 < discountRate params"

text \<open>
  The trajectory as the specification words it: start at \<open>K0\<close>; the update of period
  \<open>t\<close> subtracts \<open>C1 * g^t\<close> and multiplies by \<open>1 + r\<close>. \<open>capital_after n\<close>
  is the capital after the updates of periods \<open>0 .. n - 1\<close>.
\<close>

fun capital_after :: "real \<Rightarrow> real \<Rightarrow> real \<Rightarrow> real \<Rightarrow> nat \<Rightarrow> real" where
  "capital_after K0 C1 g r 0 = K0"
| "capital_after K0 C1 g r (Suc n) = (capital_after K0 C1 g r n - C1 * g ^ n) * (1 + r)"

text \<open>
  The bracket as the specification words it: it starts at \<open>(1% K0, 15% K0)\<close>; a step
  takes the midpoint, simulates, and raises \<open>low\<close> to the midpoint when the terminal
  capital exceeds the target, else lowers \<open>high\<close> to it.
\<close>

definition midpoint :: "real \<times> real \<Rightarrow> real" where
  "midpoint b = (fst b + snd b) / 2"

fun bracket :: "params \<Rightarrow> nat \<Rightarrow> real \<times> real" where
  "bracket params 0 = (initialCapital params * (1 / 100), initialCapital params * (15 / 100))"
| "bracket params (Suc n) =
     (let b = bracket params n; m = midpoint b
      in if terminal_capital params m > inheritanceTarget params
         then (m, snd b) else (fst b, m))"

text \<open>
  The entry the series loop pushes in period \<open>n\<close>, written with the unclamped
  trajectory \<open>capital_after\<close>.
\<close>

definition point :: "real \<Rightarrow> real \<Rightarrow> real \<Rightarrow> real \<Rightarrow> nat \<Rightarrow> DataPoint" where
  "point K0 C1 g r n =
     \<lparr>period = int n, capital = max 0 (capital_after K0 C1 g r n), consumption = C1 * g ^ n\<rparr>"

text \<open>
  What one unit of initial consumption has cost after \<open>n\<close> periods, with the
  returns it would have earned.
\<close>

fun drawdown :: "real \<Rightarrow> real \<Rightarrow> nat \<Rightarrow> real" where
  "drawdown g r 0 = 0"
| "drawdown g r (Suc n) = (drawdown g r n + g ^ n) * (1 + r)"

subsection \<open>Concrete inputs\<close>

text \<open>
  The default parameters of the dashboard (\<open>defaultParams\<close>), which are also
  Scenario A of the specification.
\<close>

definition scenario_A :: params where
  "scenario_A =
     \<lparr>initialCapital = 1000000, annualReturn = 5 / 100, discountRate = 3 / 100,
      riskAversion = 2, lifeExpectancy = 85, currentAge = 35, inheritanceTarget = 200000\<rparr>"


text \<open>
  Scenario D of the specification: \<open>life_expectancy = 30\<close>, \<open>current_age = 45\<close>,
  the other parameters at their defaults.
\<close>

definition scenario_D :: params where
  "scenario_D = scenario_A\<lparr>lifeExpectancy := 30, currentAge := 45\<rparr>"

text \<open>
  A plan over a single year, from age 35 to 36, with one million of capital, a return
  and a discount rate of 5% and logarithmic utility; the bequest is left open.
\<close>

definition one_year_plan :: "real \<Rightarrow> params" where
  "one_year_plan target =
     \<lparr>initialCapital = 1000000, annualReturn = 5 / 100, discountRate = 5 / 100,
      riskAversion = 1, lifeExpectancy = 36, currentAge = 35, inheritanceTarget = target\<rparr>"



section \<open>The model over IEEE doubles\<close>

subsection \<open>Rounding\<close>

text \<open>
  A double has a significand of 53 bits; below \<open>2^-1022\<close> the spacing stays at
  \<open>2^-1074\<close> (subnormal numbers). \<open>ulp_exponent x\<close> is the exponent of the spacing
  of the doubles around \<open>x\<close>, \<open>round_even\<close> rounds to the nearest integer with ties
  to the even one, and \<open>rn\<close> rounds a real number to the nearest double, the exponent
  being unbounded above.
\<close>

definition round_even :: "real \<Rightarrow> int" where
  "round_even y =
     (let f = \<lfloor>y\<rfloor>
      in if y - of_int f < 1 / 2 then f
         else if 1 / 2 < y - of_int f then f + 1
         else if even f then f else f + 1)"

definition ulp_exponent :: "real \<Rightarrow> int" where
  "ulp_exponent x = max \<lfloor>log 2 \<bar>x\<bar>\<rfloor> (- 1022) - 52"

definition rn :: "real \<Rightarrow> real" where
  "rn x = sgn x * (of_int (round_even (\<bar>x\<bar> / 2 powi ulp_exponent x)) * 2 powi ulp_exponent x)"

text \<open>The largest finite double, \<open>(2^53 - 1) * 2^971\<close>.\<close>

definition max_double :: real where
  "max_double = (2 ^ 53 - 1) * 2 ^ 971"

text \<open>
  The reals that are doubles, up to the bound on the magnitude: an integer significand
  below \<open>2^53\<close> and an exponent of at least \<open>-1074\<close>.
\<close>

definition is_double :: "real \<Rightarrow> bool" where
  "is_double x \<longleftrightarrow> (\<exists>m k. x = of_int m * 2 powi k \<and> \<bar>m\<bar> < 2 ^ 53 \<and> - 1074 \<le> k)"

subsection \<open>Numbers and their operations\<close>

text \<open>
  A number is a finite value, one of the two infinities, or NaN. The sign of zero is not
  kept: \<open>Fin 0\<close> stands for \<open>+0\<close>. In this program the sign of a zero can only show
  through a division by it (\<open>1 / (1 + rho)\<close>, \<open>1 / sigma\<close>) or through the special
  cases of \<open>Math.pow\<close>; no result below rests on either. \<open>fl\<close> is the rounding of an
  exact result, which overflows to an infinity beyond the largest double.
\<close>

datatype number = Fin real | PInfinity | NInfinity | NaN

definition fl :: "real \<Rightarrow> number" where
  "fl x =
     (if max_double < rn x then PInfinity
      else if rn x < - max_double then NInfinity
      else Fin (rn x))"

text \<open>
  The operators \<open>+\<close>, \<open>-\<close>, \<open>*\<close> and \<open>/\<close> on numbers: NaN is absorbing,
  \<open>Infinity - Infinity\<close>, \<open>0 * Infinity\<close>, \<open>0 / 0\<close> and
  \<open>Infinity / Infinity\<close> are NaN, a finite result is rounded.
\<close>

fun js_neg :: "number \<Rightarrow> number" where
  "js_neg (Fin x) = Fin (- x)"
| "js_neg PInfinity = NInfinity"
| "js_neg NInfinity = PInfinity"
| "js_neg NaN = NaN"

fun js_add :: "number \<Rightarrow> number \<Rightarrow> number" where
  "js_add (Fin x) (Fin y) = fl (x + y)"
| "js_add (Fin x) PInfinity = PInfinity"
| "js_add (Fin x) NInfinity = NInfinity"
| "js_add PInfinity (Fin y) = PInfinity"
| "js_add PInfinity PInfinity = PInfinity"
| "js_add PInfinity NInfinity = NaN"
| "js_add NInfinity (Fin y) = NInfinity"
| "js_add NInfinity PInfinity = NaN"
| "js_add NInfinity NInfinity = NInfinity"
| "js_add NaN b = NaN"
| "js_add a NaN = NaN"

definition js_sub :: "number \<Rightarrow> number \<Rightarrow> number" where
  "js_sub a b = js_add a (js_neg b)"

fun js_mul :: "number \<Rightarrow> number \<Rightarrow> number" where
  "js_mul (Fin x) (Fin y) = fl (x * y)"
| "js_mul (Fin x) PInfinity = (if x = 0 then NaN else if 0 < x then PInfinity else NInfinity)"
| "js_mul (Fin x) NInfinity = (if x = 0 then NaN else if 0 < x then NInfinity else PInfinity)"
| "js_mul PInfinity (Fin y) = (if y = 0 then NaN else if 0 < y then PInfinity else NInfinity)"
| "js_mul NInfinity (Fin y) = (if y = 0 then NaN else if 0 < y then NInfinity else PInfinity)"
| "js_mul PInfinity PInfinity = PInfinity"
| "js_mul PInfinity NInfinity = NInfinity"
| "js_mul NInfinity PInfinity = NInfinity"
| "js_mul NInfinity NInfinity = PInfinity"
| "js_mul NaN b = NaN"
| "js_mul a NaN = NaN"

fun js_div :: "number \<Rightarrow> number \<Rightarrow> number" where
  "js_div (Fin x) (Fin y) =
     (if y = 0 then (if x = 0 then NaN else if 0 < x then PInfinity else NInfinity)
      else fl (x / y))"
| "js_div (Fin x) PInfinity = Fin 0"
| "js_div (Fin x) NInfinity = Fin 0"
| "js_div PInfinity (Fin y) = (if 0 \<le> y then PInfinity else NInfinity)"
| "js_div NInfinity (Fin y) = (if 0 \<le> y then NInfinity else PInfinity)"
| "js_div PInfinity PInfinity = NaN"
| "js_div PInfinity NInfinity = NaN"
| "js_div NInfinity PInfinity = NaN"
| "js_div NInfinity NInfinity = NaN"
| "js_div NaN b = NaN"
| "js_div a NaN = NaN"

text \<open>
  The comparisons \<open>a > b\<close> and \<open>a <= b\<close>: both are false when an operand is NaN.
\<close>

fun js_gt :: "number \<Rightarrow> number \<Rightarrow> bool" where
  "js_gt (Fin x) (Fin y) = (y < x)"
| "js_gt (Fin x) NInfinity = True"
| "js_gt PInfinity (Fin y) = True"
| "js_gt PInfinity NInfinity = True"
| "js_gt a b = False"

fun js_le :: "number \<Rightarrow> number \<Rightarrow> bool" where
  "js_le (Fin x) (Fin y) = (x \<le> y)"
| "js_le (Fin x) PInfinity = True"
| "js_le NInfinity (Fin y) = True"
| "js_le NInfinity NInfinity = True"
| "js_le NInfinity PInfinity = True"
| "js_le PInfinity PInfinity = True"
| "js_le a b = False"

text \<open>\<open>Math.max\<close> of two numbers: NaN when either is NaN.\<close>

fun Math_max :: "number \<Rightarrow> number \<Rightarrow> number" where
  "Math_max NaN b = NaN"
| "Math_max a NaN = NaN"
| "Math_max a b = (if js_gt b a then b else a)"

text \<open>
  \<open>Math.pow\<close>, by the cases of the language standard: a NaN exponent gives NaN, a
  zero exponent gives 1 (also for a NaN base), then a NaN base gives NaN, then the cases
  of an infinite or zero base and of an infinite exponent, and a negative base with an
  exponent that is not a whole number gives NaN. For the remaining arguments the
  standard asks for an approximation of the power; the model takes the correctly rounded
  one. The results below use the special cases and the sign of the result only, apart
  from \<open>Math.pow(1024, 1) = 1024\<close> in the example of the steep plan.
\<close>

definition Math_pow :: "number \<Rightarrow> number \<Rightarrow> number" where
  "Math_pow base exponent =
     (case exponent of
        NaN \<Rightarrow> NaN
      | Fin y \<Rightarrow>
          if y = 0 then Fin 1
          else (case base of
                  NaN \<Rightarrow> NaN
                | PInfinity \<Rightarrow> if 0 < y then PInfinity else Fin 0
                | NInfinity \<Rightarrow>
                    if 0 < y then (if of_int \<lfloor>y\<rfloor> = y \<and> odd \<lfloor>y\<rfloor> then NInfinity else PInfinity)
                    else Fin 0
                | Fin x \<Rightarrow>
                    if x = 0 then (if 0 < y then Fin 0 else PInfinity)
                    else if 0 < x then fl (x powr y)
                    else if of_int \<lfloor>y\<rfloor> = y then
                      (if odd \<lfloor>y\<rfloor> then js_neg (fl (\<bar>x\<bar> powr y)) else fl (\<bar>x\<bar> powr y))
                    else NaN)
      | PInfinity \<Rightarrow>
          (case base of
             NaN \<Rightarrow> NaN
           | PInfinity \<Rightarrow> PInfinity
           | NInfinity \<Rightarrow> PInfinity
           | Fin x \<Rightarrow>
               if x = 0 then Fin 0
               else if 1 < \<bar>x\<bar> then PInfinity
               else if \<bar>x\<bar> = 1 then NaN else Fin 0)
      | NInfinity \<Rightarrow>
          (case base of
             NaN \<Rightarrow> NaN
           | PInfinity \<Rightarrow> Fin 0
           | NInfinity \<Rightarrow> Fin 0
           | Fin x \<Rightarrow>
               if x = 0 then PInfinity
               else if 1 < \<bar>x\<bar> then Fin 0
               else if \<bar>x\<bar> = 1 then NaN else PInfinity))"

text \<open>A number that is not negative: NaN, or at least 0.\<close>

definition nonneg_or_NaN :: "number \<Rightarrow> bool" where
  "nonneg_or_NaN a \<longleftrightarrow> a = NaN \<or> js_le (Fin 0) a"

subsection \<open>The function over doubles\<close>

text \<open>
  The same definitions as in the first model, line by line, with the operations of the
  program in place of those of the real numbers. The literals \<open>0.04\<close>, \<open>0.01\<close>
  and \<open>0.15\<close> are the doubles nearest to these decimals.
\<close>

record js_params =
  js_initialCapital :: number
  js_annualReturn :: number
  js_discountRate :: number
  js_riskAversion :: number
  js_lifeExpectancy :: int
  js_currentAge :: int
  js_inheritanceTarget :: number

record js_DataPoint =
  js_period :: int
  js_capital :: number
  js_consumption :: number

record js_vars =
  js_K :: number
  js_C1 :: number
  js_low :: number
  js_high :: number

definition js_beta :: "js_params \<Rightarrow> number" where
  "js_beta params = js_div (Fin 1) (js_add (Fin 1) (js_discountRate params))"

definition js_growthRate :: "js_params \<Rightarrow> number" where
  "js_growthRate params =
     Math_pow (js_mul (js_beta params) (js_add (Fin 1) (js_annualReturn params)))
       (js_div (Fin 1) (js_riskAversion params))"

function js_simulate_loop ::
  "number \<Rightarrow> number \<Rightarrow> number \<Rightarrow> int \<Rightarrow> int \<Rightarrow> number \<Rightarrow> number" where
  "js_simulate_loop C1 g r T t K =
     (if t < T then
        (let C = js_mul C1 (Math_pow g (Fin (of_int t)))
         in js_simulate_loop C1 g r T (t + 1) (js_mul (js_sub K C) (js_add (Fin 1) r)))
      else K)"
  by pat_completeness auto
termination
  by (relation "measure (\<lambda>(C1, g, r, T, t, K). nat (T - t))") auto

declare js_simulate_loop.simps [simp del]

definition js_terminal_capital :: "js_params \<Rightarrow> number \<Rightarrow> number" where
  "js_terminal_capital params C1 =
     js_simulate_loop C1 (js_growthRate params) (js_annualReturn params)
       (js_lifeExpectancy params - js_currentAge params) 0 (js_initialCapital params)"

definition js_bisect_body :: "js_params \<Rightarrow> js_vars \<Rightarrow> js_vars" where
  "js_bisect_body params s =
     (let C1 = js_div (js_add (js_low s) (js_high s)) (Fin 2);
          K = js_terminal_capital params C1
      in if js_gt K (js_inheritanceTarget params)
         then s\<lparr>js_K := K, js_C1 := C1, js_low := C1\<rparr>
         else s\<lparr>js_K := K, js_C1 := C1, js_high := C1\<rparr>)"

function js_bisect_loop :: "js_params \<Rightarrow> int \<Rightarrow> js_vars \<Rightarrow> js_vars" where
  "js_bisect_loop params i s =
     (if i < 50 then js_bisect_loop params (i + 1) (js_bisect_body params s) else s)"
  by pat_completeness auto
termination
  by (relation "measure (\<lambda>(params, i, s). nat (50 - i))") auto

declare js_bisect_loop.simps [simp del]

definition js_solve :: "js_params \<Rightarrow> js_vars" where
  "js_solve params =
     (let K = js_initialCapital params
      in js_bisect_loop params 0
           \<lparr>js_K = K, js_C1 = js_mul K (fl (4 / 100)),
            js_low = js_mul K (fl (1 / 100)), js_high = js_mul K (fl (15 / 100))\<rparr>)"

function js_series_loop ::
  "number \<Rightarrow> number \<Rightarrow> number \<Rightarrow> int \<Rightarrow> int \<Rightarrow> number \<times> js_DataPoint list \<Rightarrow>
   number \<times> js_DataPoint list" where
  "js_series_loop C1 g r T t (K, data) =
     (if t \<le> T then
        (let consumption = js_mul C1 (Math_pow g (Fin (of_int t)));
             data' = data @
               [\<lparr>js_period = t, js_capital = Math_max (Fin 0) K, js_consumption = consumption\<rparr>]
         in js_series_loop C1 g r T (t + 1)
              (js_mul (js_sub K consumption) (js_add (Fin 1) r), data'))
      else (K, data))"
  by pat_completeness auto
termination
  by (relation "measure (\<lambda>(C1, g, r, T, t, s). nat (T + 1 - t))") auto

declare js_series_loop.simps [simp del]

definition js_generateOptimizationData :: "js_params \<Rightarrow> js_DataPoint list" where
  "js_generateOptimizationData params =
     (let T = js_lifeExpectancy params - js_currentAge params;
          r = js_annualReturn params;
          C1 = js_C1 (js_solve params)
      in snd (js_series_loop C1 (js_growthRate params) r T 0 (js_initialCapital params, [])))"

text \<open>The capital the returned series ends with, and the validated domain.\<close>

definition js_final_capital :: "js_params \<Rightarrow> number" where
  "js_final_capital params = js_capital (last (js_generateOptimizationData params))"

definition js_validated :: "js_params \<Rightarrow> bool" where
  "js_validated params \<longleftrightarrow>
     js_le (Fin 0) (js_initialCapital params) \<and> js_le (Fin 0) (js_inheritanceTarget params) \<and>
     js_currentAge params < js_lifeExpectancy params \<and> js_gt (js_riskAversion params) (Fin 0) \<and>
     js_gt (js_annualReturn params) (Fin (- 1)) \<and> js_gt (js_discountRate params) (Fin (- 1))"

text \<open>
  The trajectory after \<open>n\<close> updates, the bracket after \<open>n\<close> bisection steps and the
  entry of period \<open>n\<close>, as in the first model.
\<close>

fun js_capital_after :: "number \<Rightarrow> number \<Rightarrow> number \<Rightarrow> number \<Rightarrow> nat \<Rightarrow> number" where
  "js_capital_after K0 C1 g r 0 = K0"
| "js_capital_after K0 C1 g r (Suc n) =
     js_mul (js_sub (js_capital_after K0 C1 g r n) (js_mul C1 (Math_pow g (Fin (of_nat n)))))
       (js_add (Fin 1) r)"

definition js_midpoint :: "number \<times> number \<Rightarrow> number" where
  "js_midpoint b = js_div (js_add (fst b) (snd b)) (Fin 2)"

fun js_bracket :: "js_params \<Rightarrow> nat \<Rightarrow> number \<times> number" where
  "js_bracket params 0 =
     (js_mul (js_initialCapital params) (fl (1 / 100)),
      js_mul (js_initialCapital params) (fl (15 / 100)))"
| "js_bracket params (Suc n) =
     (let b = js_bracket params n; m = js_midpoint b
      in if js_gt (js_terminal_capital params m) (js_inheritanceTarget params)
         then (m, snd b) else (fst b, m))"

definition js_point :: "number \<Rightarrow> number \<Rightarrow> number \<Rightarrow> number \<Rightarrow> nat \<Rightarrow> js_DataPoint" where
  "js_point K0 C1 g r n =
     \<lparr>js_period = int n, js_capital = Math_max (Fin 0) (js_capital_after K0 C1 g r n),
      js_consumption = js_mul C1 (Math_pow g (Fin (of_nat n)))\<rparr>"

subsection \<open>Concrete inputs over doubles\<close>

text \<open>
  A plan over one year with a return of 1/16, under which two neighbouring candidates
  leave the same capital.
\<close>

definition rounding_plan :: js_params where
  "rounding_plan =
     \<lparr>js_initialCapital = Fin 1000000, js_annualReturn = Fin (1 / 16),
      js_discountRate = Fin (1 / 32), js_riskAversion = Fin 2,
      js_lifeExpectancy = 36, js_currentAge = 35, js_inheritanceTarget = Fin 200000\<rparr>"

text \<open>
  A plan with a return of \<open>-2\<close>, which the function accepts: the base of the growth
  rate is negative and its square root is NaN.
\<close>

definition nan_plan :: js_params where
  "nan_plan =
     \<lparr>js_initialCapital = Fin 1000000, js_annualReturn = Fin (- 2),
      js_discountRate = Fin 0, js_riskAversion = Fin 2,
      js_lifeExpectancy = 38, js_currentAge = 35, js_inheritanceTarget = Fin 200000\<rparr>"

text \<open>A plan over one year whose bequest of 875,000 the fixed bracket encloses.\<close>

definition bracketed_plan :: js_params where
  "bracketed_plan =
     \<lparr>js_initialCapital = Fin 1000000, js_annualReturn = Fin 0,
      js_discountRate = Fin 0, js_riskAversion = Fin 1,
      js_lifeExpectancy = 36, js_currentAge = 35, js_inheritanceTarget = Fin 875000\<rparr>"

text \<open>
  A validated plan over two years with a discount rate of \<open>-1023/1024\<close>: consumption
  grows by the factor 1024 a year and exhausts the capital in the second year.
\<close>

definition steep_plan :: js_params where
  "steep_plan =
     \<lparr>js_initialCapital = Fin 1000000, js_annualReturn = Fin 0,
      js_discountRate = Fin (- (1023 / 1024)), js_riskAversion = Fin 1,
      js_lifeExpectancy = 37, js_currentAge = 35, js_inheritanceTarget = Fin 200000\<rparr>"

text \<open>
  The plan over one year above with a bequest of 200,000, which a consumption of 800,000
  reaches and the fixed bracket does not enclose.
\<close>

definition unreached_plan :: js_params where
  "unreached_plan = bracketed_plan\<lparr>js_inheritanceTarget := Fin 200000\<rparr>"

section \<open>Properties\<close>

subsection \<open>First model: the loops as recursion on the number of periods\<close>

lemma simulate_loop_capital_after:
  "0 \<le> t \<Longrightarrow> t \<le> T \<Longrightarrow> K = capital_after K0 C1 g r (nat t) \<Longrightarrow>
   simulate_loop C1 g r T t K = capital_after K0 C1 g r (nat T)"
proof (induction C1 g r T t K rule: simulate_loop.induct)
  case (1 C1 g r T t K)
  show ?case
  proof (cases "t < T")
    case True
    have step: "(K - C1 * g ^ nat t) * (1 + r) = capital_after K0 C1 g r (nat (t + 1))"
      using "1.prems" by (simp add: nat_add_distrib)
    have "simulate_loop C1 g r T t K =
          simulate_loop C1 g r T (t + 1) ((K - C1 * g ^ nat t) * (1 + r))"
      using True by (subst simulate_loop.simps) simp
    also have "\<dots> = capital_after K0 C1 g r (nat T)"
      using "1.IH" [OF True refl _ _ step] "1.prems" True by simp
    finally show ?thesis .
  next
    case False
    with "1.prems" have "t = T" by simp
    then show ?thesis using "1.prems" by (subst simulate_loop.simps) simp
  qed
qed

lemma terminal_capital_eq:
  "terminal_capital p C1 =
   capital_after (initialCapital p) C1 (growthRate p) (annualReturn p)
     (nat (lifeExpectancy p - currentAge p))"
proof (cases "0 \<le> lifeExpectancy p - currentAge p")
  case True
  then show ?thesis
    unfolding terminal_capital_def
    by (intro simulate_loop_capital_after) simp_all
next
  case False
  then show ?thesis
    unfolding terminal_capital_def
    by (subst simulate_loop.simps) simp
qed

lemma series_loop_eq:
  "0 \<le> t \<Longrightarrow> t \<le> T + 1 \<Longrightarrow> K = capital_after K0 C1 g r (nat t) \<Longrightarrow>
   snd (series_loop C1 g r T t (K, data)) =
   data @ map (point K0 C1 g r) [nat t ..< nat (T + 1)]"
proof (induction C1 g r T t "(K, data)" arbitrary: K data rule: series_loop.induct)
  case (1 C1 g r T t K data)
  show ?case
  proof (cases "t \<le> T")
    case True
    let ?c = "C1 * g ^ nat t"
    let ?d = "data @ [\<lparr>period = t, capital = max 0 K, consumption = ?c\<rparr>]"
    have step: "(K - ?c) * (1 + r) = capital_after K0 C1 g r (nat (t + 1))"
      using "1.prems" by (simp add: nat_add_distrib)
    have pt: "\<lparr>period = t, capital = max 0 K, consumption = ?c\<rparr> = point K0 C1 g r (nat t)"
      using "1.prems" by (simp add: point_def)
    have lt: "nat t < nat (T + 1)" using True "1.prems" by linarith
    have suc: "nat (t + 1) = Suc (nat t)" using "1.prems" by linarith
    have upt: "[nat t ..< nat (T + 1)] = nat t # [nat (t + 1) ..< nat (T + 1)]"
      unfolding suc by (rule upt_conv_Cons [OF lt])
    have "snd (series_loop C1 g r T t (K, data)) =
          snd (series_loop C1 g r T (t + 1) ((K - ?c) * (1 + r), ?d))"
      using True by (subst series_loop.simps) (simp add: Let_def)
    also have "\<dots> = ?d @ map (point K0 C1 g r) [nat (t + 1) ..< nat (T + 1)]"
      using "1.hyps" [OF True refl refl _ _ step] "1.prems" True by simp
    finally show ?thesis by (simp add: pt upt)
  next
    case False
    with "1.prems" have "t = T + 1" by simp
    then show ?thesis by (subst series_loop.simps) simp
  qed
qed

lemma bisect_loop_funpow:
  "bisect_loop p i s = (bisect_body p ^^ nat (50 - i)) s"
proof (induction p i s rule: bisect_loop.induct)
  case (1 p i s)
  show ?case
  proof (cases "i < 50")
    case True
    then have n: "nat (50 - i) = Suc (nat (50 - (i + 1)))" by simp
    have "bisect_loop p i s = bisect_loop p (i + 1) (bisect_body p s)"
      using True by (subst bisect_loop.simps) simp
    also have "\<dots> = (bisect_body p ^^ nat (50 - (i + 1))) (bisect_body p s)"
      using "1.IH" [OF True] .
    finally show ?thesis unfolding n by (simp add: funpow_swap1)
  next
    case False
    then show ?thesis by (subst bisect_loop.simps) simp
  qed
qed

subsection \<open>The trajectory is affine in the initial consumption\<close>

lemma capital_after_affine:
  "capital_after K0 C1 g r n = K0 * (1 + r) ^ n - C1 * drawdown g r n"
proof (induction n)
  case 0
  show ?case by simp
next
  case (Suc n)
  have "capital_after K0 C1 g r (Suc n) =
        (K0 * (1 + r) ^ n - C1 * drawdown g r n - C1 * g ^ n) * (1 + r)"
    by (simp add: Suc.IH)
  also have "\<dots> = K0 * (1 + r) ^ Suc n - C1 * drawdown g r (Suc n)"
    by (simp add: algebra_simps)
  finally show ?case .
qed

lemma drawdown_nonneg: "0 \<le> g \<Longrightarrow> - 1 \<le> r \<Longrightarrow> 0 \<le> drawdown g r n"
  by (induction n) simp_all

lemma growthRate_nonneg: "0 \<le> growthRate p"
  by (simp add: growthRate_def)

lemma terminal_capital_diff:
  "terminal_capital p a - terminal_capital p b =
   (b - a) * drawdown (growthRate p) (annualReturn p) (nat (lifeExpectancy p - currentAge p))"
  by (simp add: terminal_capital_eq capital_after_affine algebra_simps)

lemma terminal_capital_antimono:
  assumes "- 1 \<le> annualReturn p" and "a \<le> b"
  shows "terminal_capital p b \<le> terminal_capital p a"
proof -
  have "0 \<le> drawdown (growthRate p) (annualReturn p) (nat (lifeExpectancy p - currentAge p))"
    using assms(1) by (intro drawdown_nonneg growthRate_nonneg)
  then have "0 \<le> terminal_capital p a - terminal_capital p b"
    unfolding terminal_capital_diff using assms(2) by simp
  then show ?thesis by simp
qed

subsection \<open>The bisection loop follows the bracket\<close>

lemma bisect_body_bracket:
  assumes "v_low s = fst (bracket p n)" and "v_high s = snd (bracket p n)"
  shows "bisect_body p s =
         \<lparr>v_K = terminal_capital p (midpoint (bracket p n)), v_C1 = midpoint (bracket p n),
          v_low = fst (bracket p (Suc n)), v_high = snd (bracket p (Suc n))\<rparr>"
proof -
  have m: "(v_low s + v_high s) / 2 = midpoint (bracket p n)"
    by (simp add: midpoint_def assms)
  show ?thesis
  proof (cases "terminal_capital p (midpoint (bracket p n)) > inheritanceTarget p")
    case True
    then show ?thesis
      unfolding bisect_body_def Let_def m using assms(2)
      by (cases s) (simp add: Let_def)
  next
    case False
    then show ?thesis
      unfolding bisect_body_def Let_def m using assms(1)
      by (cases s) (simp add: Let_def)
  qed
qed

lemma bisect_funpow_bracket:
  assumes "v_low s0 = fst (bracket p 0)" and "v_high s0 = snd (bracket p 0)"
  shows "(bisect_body p ^^ Suc n) s0 =
         \<lparr>v_K = terminal_capital p (midpoint (bracket p n)), v_C1 = midpoint (bracket p n),
          v_low = fst (bracket p (Suc n)), v_high = snd (bracket p (Suc n))\<rparr>"
proof (induction n)
  case 0
  show ?case using bisect_body_bracket [OF assms] by simp
next
  case (Suc n)
  have "(bisect_body p ^^ Suc (Suc n)) s0 = bisect_body p ((bisect_body p ^^ Suc n) s0)"
    by simp
  also have "\<dots> = \<lparr>v_K = terminal_capital p (midpoint (bracket p (Suc n))),
          v_C1 = midpoint (bracket p (Suc n)),
          v_low = fst (bracket p (Suc (Suc n))), v_high = snd (bracket p (Suc (Suc n)))\<rparr>"
    unfolding Suc.IH by (rule bisect_body_bracket) simp_all
  finally show ?case .
qed

lemma solve_bracket:
  "solve p =
   \<lparr>v_K = terminal_capital p (midpoint (bracket p 49)), v_C1 = midpoint (bracket p 49),
    v_low = fst (bracket p 50), v_high = snd (bracket p 50)\<rparr>"
proof -
  have n: "nat (50 - 0) = Suc 49" by simp
  have e: "(50::nat) = Suc 49" by simp
  show ?thesis
    unfolding solve_def Let_def bisect_loop_funpow n e
    by (rule bisect_funpow_bracket) simp_all
qed


lemma bracket_high_stuck:
  assumes "0 \<le> initialCapital p" and "- 1 \<le> annualReturn p"
    and "inheritanceTarget p < terminal_capital p (initialCapital p * (15 / 100))"
  shows "bracket p n =
         (initialCapital p * (15 / 100) - initialCapital p * (14 / 100) / 2 ^ n,
          initialCapital p * (15 / 100))"
proof (induction n)
  case 0
  show ?case by simp
next
  case (Suc n)
  let ?hi = "initialCapital p * (15 / 100)"
  let ?m = "midpoint (bracket p n)"
  have m: "?m = ?hi - initialCapital p * (14 / 100) / 2 ^ Suc n"
    unfolding Suc.IH midpoint_def by (simp add: field_simps)
  have "0 \<le> initialCapital p * (14 / 100) / 2 ^ Suc n" using assms(1) by simp
  then have "?m \<le> ?hi" unfolding m by linarith
  then have "terminal_capital p ?hi \<le> terminal_capital p ?m"
    using assms(2) by (intro terminal_capital_antimono)
  then have "terminal_capital p ?m > inheritanceTarget p" using assms(3) by linarith
  then have "bracket p (Suc n) = (?m, snd (bracket p n))" by (simp add: Let_def)
  then show ?case unfolding m by (simp add: Suc.IH)
qed

subsection \<open>The returned series\<close>

lemma series_eq:
  "generateOptimizationData p =
   map (point (initialCapital p) (v_C1 (solve p)) (growthRate p) (annualReturn p))
     [0 ..< nat (lifeExpectancy p - currentAge p + 1)]"
proof (cases "0 \<le> lifeExpectancy p - currentAge p + 1")
  case True
  have "snd (series_loop (v_C1 (solve p)) (growthRate p) (annualReturn p)
               (lifeExpectancy p - currentAge p) 0 (initialCapital p, [])) =
        [] @ map (point (initialCapital p) (v_C1 (solve p)) (growthRate p) (annualReturn p))
               [nat 0 ..< nat (lifeExpectancy p - currentAge p + 1)]"
    by (rule series_loop_eq) (use True in simp_all)
  then show ?thesis
    unfolding generateOptimizationData_def Let_def by simp
next
  case False
  then show ?thesis
    unfolding generateOptimizationData_def Let_def
    by (subst series_loop.simps) simp
qed

lemma series_length:
  "length (generateOptimizationData p) = nat (lifeExpectancy p - currentAge p + 1)"
  by (simp add: series_eq)

lemma map_int_upt: "map int [0 ..< nat (T + 1)] = [0 .. T]"
proof (cases "0 \<le> T")
  case True
  then obtain n where T: "T = int n" using nonneg_int_cases by blast
  have "map int [0 ..< Suc n] = [0 .. int n]"
  proof (induction n)
    case 0
    show ?case by (simp add: upto.simps)
  next
    case (Suc n)
    have "[0 .. int (Suc n)] = [0 .. int n] @ [int (Suc n)]"
      using upto_rec2 [of 0 "int (Suc n)"] by simp
    then show ?case using Suc.IH by simp
  qed
  then show ?thesis unfolding T by (simp add: nat_add_distrib)
next
  case False
  then show ?thesis by (simp add: upto.simps)
qed

lemma series_periods:
  "map period (generateOptimizationData p) = [0 .. lifeExpectancy p - currentAge p]"
proof -
  have "map period (generateOptimizationData p) =
        map int [0 ..< nat (lifeExpectancy p - currentAge p + 1)]"
    unfolding series_eq by (simp add: point_def comp_def)
  then show ?thesis by (simp only: map_int_upt)
qed

lemma series_last:
  assumes "0 \<le> lifeExpectancy p - currentAge p"
  shows "last (generateOptimizationData p) =
         point (initialCapital p) (v_C1 (solve p)) (growthRate p) (annualReturn p)
           (nat (lifeExpectancy p - currentAge p))"
proof -
  have n: "nat (lifeExpectancy p - currentAge p + 1) = Suc (nat (lifeExpectancy p - currentAge p))"
    using assms by linarith
  show ?thesis unfolding series_eq n by simp
qed

lemma final_capital_eq:
  assumes "0 \<le> lifeExpectancy p - currentAge p"
  shows "final_capital p = max 0 (terminal_capital p (v_C1 (solve p)))"
  unfolding final_capital_def series_last [OF assms] terminal_capital_eq
  by (simp add: point_def)

subsection \<open>The one-year plan\<close>

lemma validated_one_year_plan: "0 \<le> target \<Longrightarrow> validated (one_year_plan target)"
  by (simp add: validated_def one_year_plan_def)

lemma terminal_capital_one_year_plan:
  "terminal_capital (one_year_plan target) c = (1000000 - c) * (105 / 100)"
  by (simp add: terminal_capital_eq one_year_plan_def)

subsection \<open>The solved initial consumption\<close>

lemma solve_C1: "v_C1 (solve p) = midpoint (bracket p 49)"
  by (subst solve_bracket) simp


lemma solve_C1_high_stuck:
  assumes "0 \<le> initialCapital p" and "- 1 \<le> annualReturn p"
    and "inheritanceTarget p < terminal_capital p (initialCapital p * (15 / 100))"
  shows "v_C1 (solve p) = initialCapital p * (15 / 100) - initialCapital p * (14 / 100) / 2 ^ 50"
proof -
  have "(2::real) ^ 50 = 2 * 2 ^ 49" by simp
  then show ?thesis
    unfolding solve_C1 bracket_high_stuck [OF assms] midpoint_def
    by (simp only: fst_conv snd_conv) (simp add: field_simps)
qed

lemma validated_horizon: "validated p \<Longrightarrow> 0 \<le> lifeExpectancy p - currentAge p"
  by (simp add: validated_def)


subsection \<open>Facts about the concrete inputs\<close>




subsection \<open>Second model: rounding to the nearest double\<close>

lemma round_even_mono: "x \<le> y \<Longrightarrow> round_even x \<le> round_even y"
proof -
  assume xy: "x \<le> y"
  have fx: "\<lfloor>x\<rfloor> \<le> \<lfloor>y\<rfloor>" using xy by (rule floor_mono)
  show ?thesis
  proof (cases "\<lfloor>x\<rfloor> = \<lfloor>y\<rfloor>")
    case True
    then have "x - of_int \<lfloor>x\<rfloor> \<le> y - of_int \<lfloor>y\<rfloor>" using xy by simp
    then show ?thesis unfolding round_even_def Let_def using True by auto
  next
    case False
    then have "\<lfloor>x\<rfloor> + 1 \<le> \<lfloor>y\<rfloor>" using fx by simp
    moreover have "round_even x \<le> \<lfloor>x\<rfloor> + 1" unfolding round_even_def Let_def by auto
    moreover have "\<lfloor>y\<rfloor> \<le> round_even y" unfolding round_even_def Let_def by auto
    ultimately show ?thesis by linarith
  qed
qed

lemma round_even_of_int [simp]: "round_even (of_int n) = n"
  by (simp add: round_even_def)

lemma round_even_ge: "of_int n \<le> y \<Longrightarrow> n \<le> round_even y"
  using round_even_mono [of "of_int n" y] by simp

lemma round_even_le: "y \<le> of_int n \<Longrightarrow> round_even y \<le> n"
  using round_even_mono [of y "of_int n"] by simp

lemma round_even_error: "\<bar>of_int (round_even y) - y\<bar> \<le> 1 / 2"
  unfolding round_even_def Let_def by (auto simp: abs_if) linarith+

lemma ulp_exponent_mono:
  assumes "0 < x" and "x \<le> y"
  shows "ulp_exponent x \<le> ulp_exponent y"
proof -
  have "log 2 \<bar>x\<bar> \<le> log 2 \<bar>y\<bar>" using assms by simp
  then have "\<lfloor>log 2 \<bar>x\<bar>\<rfloor> \<le> \<lfloor>log 2 \<bar>y\<bar>\<rfloor>" by (rule floor_mono)
  then show ?thesis unfolding ulp_exponent_def by simp
qed

lemma powi_real: "(2::real) powi k = 2 powr of_int k"
  by (simp add: powr_real_of_int' )

lemma below_next_binade:
  assumes "0 < x"
  shows "x < 2 powi (ulp_exponent x + 53)"
proof -
  have "log 2 x < of_int (\<lfloor>log 2 x\<rfloor> + 1)" by linarith
  also have "\<dots> \<le> of_int (ulp_exponent x + 53)"
    unfolding ulp_exponent_def using assms by simp
  finally have "log 2 x < of_int (ulp_exponent x + 53)" .
  then have "x < 2 powr of_int (ulp_exponent x + 53)"
    using assms by (simp add: log_less_iff)
  then show ?thesis by (simp only: powi_real)
qed

lemma above_binade:
  assumes "0 < x" and "- 1074 < ulp_exponent x"
  shows "2 powi (ulp_exponent x + 52) \<le> x"
proof -
  have e: "ulp_exponent x = \<lfloor>log 2 x\<rfloor> - 52"
    using assms unfolding ulp_exponent_def by (simp add: max_def split: if_splits)
  have "of_int (ulp_exponent x + 52) \<le> log 2 x" unfolding e by simp
  then have "2 powr of_int (ulp_exponent x + 52) \<le> x"
    using assms(1) by (simp add: le_log_iff)
  then show ?thesis by (simp only: powi_real)
qed

lemma ulp_exponent_ge: "- 1074 \<le> ulp_exponent x"
  unfolding ulp_exponent_def by simp

lemma ulp_exponent_minus [simp]: "ulp_exponent (- x) = ulp_exponent x"
  unfolding ulp_exponent_def by simp

lemma rn_minus: "rn (- x) = - rn x"
  unfolding rn_def by (simp add: sgn_minus)

lemma rn_zero [simp]: "rn 0 = 0"
  unfolding rn_def by simp

lemma rn_pos_eq:
  "0 < x \<Longrightarrow> rn x = of_int (round_even (x / 2 powi ulp_exponent x)) * 2 powi ulp_exponent x"
  unfolding rn_def by simp

lemma rn_nonneg: "0 \<le> x \<Longrightarrow> 0 \<le> rn x"
proof (cases "x = 0")
  case False
  assume "0 \<le> x"
  with False have x: "0 < x" by simp
  have "0 \<le> x / 2 powi ulp_exponent x" using x by simp
  then have "0 \<le> round_even (x / 2 powi ulp_exponent x)"
    using round_even_ge [of 0] by simp
  then show ?thesis unfolding rn_pos_eq [OF x] by simp
qed simp

lemma rn_pos_mono:
  assumes "0 < x" and "x \<le> y"
  shows "rn x \<le> rn y"
proof -
  have y: "0 < y" using assms by simp
  let ?ex = "ulp_exponent x" and ?ey = "ulp_exponent y"
  have le: "?ex \<le> ?ey" using assms by (rule ulp_exponent_mono)
  show ?thesis
  proof (cases "?ex = ?ey")
    case True
    have "x / 2 powi ?ey \<le> y / 2 powi ?ey"
      using assms(2) by (simp add: divide_right_mono)
    then have "round_even (x / 2 powi ?ey) \<le> round_even (y / 2 powi ?ey)"
      by (rule round_even_mono)
    then show ?thesis
      unfolding rn_pos_eq [OF assms(1)] rn_pos_eq [OF y] True
      by (simp add: mult_right_mono)
  next
    case False
    then have lt: "?ex < ?ey" using le by simp
    have "x / 2 powi ?ex \<le> 2 powi 53"
    proof -
      have "x < 2 powi (?ex + 53)" using assms(1) by (rule below_next_binade)
      also have "\<dots> = 2 powi 53 * 2 powi ?ex" by (simp add: power_int_add)
      finally show ?thesis by (simp add: field_simps)
    qed
    then have "x / 2 powi ?ex \<le> of_int (2 ^ 53)" by simp
    then have "round_even (x / 2 powi ?ex) \<le> 2 ^ 53" by (rule round_even_le)
    then have "of_int (round_even (x / 2 powi ?ex)) \<le> (2::real) ^ 53"
      by (metis of_int_le_iff of_int_numeral of_int_power)
    then have a: "rn x \<le> 2 ^ 53 * 2 powi ?ex"
      unfolding rn_pos_eq [OF assms(1)] by (simp add: mult_right_mono)
    have "- 1074 < ?ey" using lt ulp_exponent_ge [of x] by linarith
    then have "2 powi (?ey + 52) \<le> y" using y by (intro above_binade)
    also have "2 powi (?ey + 52) = (2::real) powi 52 * 2 powi ?ey" by (simp add: power_int_add)
    finally have "of_int (2 ^ 52) \<le> y / 2 powi ?ey" by (simp add: field_simps)
    then have "2 ^ 52 \<le> round_even (y / 2 powi ?ey)" by (rule round_even_ge)
    then have "(2::real) ^ 52 \<le> of_int (round_even (y / 2 powi ?ey))"
      by (metis of_int_le_iff of_int_numeral of_int_power)
    then have b: "2 ^ 52 * 2 powi ?ey \<le> rn y"
      unfolding rn_pos_eq [OF y] by (simp add: mult_right_mono)
    have "(2::real) powi (?ex + 53) \<le> 2 powi (?ey + 52)"
      using lt by (intro power_int_increasing) simp_all
    then have "(2::real) ^ 53 * 2 powi ?ex \<le> 2 ^ 52 * 2 powi ?ey"
      by (simp add: power_int_add)
    with a b show ?thesis by linarith
  qed
qed

lemma rn_mono: "x \<le> y \<Longrightarrow> rn x \<le> rn y"
proof -
  assume xy: "x \<le> y"
  consider "0 < x" | "x \<le> 0" "0 \<le> y" | "y < 0" by linarith
  then show ?thesis
  proof cases
    case 1
    then show ?thesis using xy by (rule rn_pos_mono)
  next
    case 2
    have "0 \<le> rn y" using 2(2) by (rule rn_nonneg)
    moreover have "0 \<le> rn (- x)" using 2(1) by (intro rn_nonneg) simp
    ultimately show ?thesis by (simp add: rn_minus)
  next
    case 3
    then have "rn (- y) \<le> rn (- x)" using xy by (intro rn_pos_mono) simp_all
    then show ?thesis by (simp add: rn_minus)
  qed
qed

lemma rn_representable:
  assumes "x = of_int m * 2 powi k" and "\<bar>m\<bar> < 2 ^ 53" and "- 1074 \<le> k"
  shows "rn x = x"
proof (cases "x = 0")
  case False
  then have m0: "m \<noteq> 0" using assms(1) by auto
  have ax: "\<bar>x\<bar> = of_int \<bar>m\<bar> * 2 powi k" unfolding assms(1) by (simp add: abs_mult)
  have "of_int \<bar>m\<bar> < (2::real) ^ 53"
    using assms(2) by (metis of_int_less_iff of_int_numeral of_int_power)
  then have "\<bar>x\<bar> < 2 ^ 53 * 2 powi k" unfolding ax by (simp add: mult_strict_right_mono)
  also have "\<dots> = 2 powi (k + 53)" by (simp add: power_int_add)
  also have "\<dots> = 2 powr of_int (k + 53)" by (rule powi_real)
  finally have "log 2 \<bar>x\<bar> < of_int (k + 53)" using False by (simp add: log_less_iff)
  then have "\<lfloor>log 2 \<bar>x\<bar>\<rfloor> < k + 53" by linarith
  then have e: "ulp_exponent x \<le> k" unfolding ulp_exponent_def using assms(3) by simp
  define d where "d = nat (k - ulp_exponent x)"
  have k: "k = ulp_exponent x + int d" unfolding d_def using e by simp
  have "(2::real) powi k = 2 ^ d * 2 powi ulp_exponent x"
    by (subst k) (simp add: power_int_add)
  then have "\<bar>x\<bar> / 2 powi ulp_exponent x = of_int (\<bar>m\<bar> * 2 ^ d)"
    unfolding ax by simp
  then have "round_even (\<bar>x\<bar> / 2 powi ulp_exponent x) = \<bar>m\<bar> * 2 ^ d"
    by (simp only: round_even_of_int)
  then have "rn x = sgn x * (of_int (\<bar>m\<bar> * 2 ^ d) * 2 powi ulp_exponent x)"
    unfolding rn_def by simp
  also have "of_int (\<bar>m\<bar> * 2 ^ d) * 2 powi ulp_exponent x = \<bar>x\<bar>"
    unfolding ax by (subst k) (simp add: power_int_add)
  finally show ?thesis by (simp add: sgn_mult_abs)
qed simp

lemma rn_eval:
  assumes "2 powi k \<le> x" and "x < 2 powi (k + 1)" and "- 1022 \<le> k"
  shows "rn x = of_int (round_even (x / 2 powi (k - 52))) * 2 powi (k - 52)"
proof -
  have x: "0 < x" using assms(1) by (meson less_le_trans zero_less_numeral zero_less_power_int)
  have "\<lfloor>log 2 x\<rfloor> = k"
    using assms(1,2) x by (simp add: floor_log_eq_powr_iff powi_real)
  then have "ulp_exponent x = k - 52"
    unfolding ulp_exponent_def using x assms(3) by simp
  then show ?thesis using rn_pos_eq [OF x] by simp
qed

subsection \<open>Second model: order and sign of the operations\<close>

lemma fl_not_NaN [simp]: "fl x \<noteq> NaN"
  by (simp add: fl_def)

lemma max_double_pos: "0 < max_double"
  by (simp add: max_double_def)

lemma fl_mono: "x \<le> y \<Longrightarrow> js_le (fl x) (fl y)"
  using rn_mono [of x y] max_double_pos by (auto simp: fl_def)

lemma fl_nonneg: "0 \<le> x \<Longrightarrow> js_le (Fin 0) (fl x)"
  using rn_nonneg [of x] max_double_pos by (auto simp: fl_def)

lemma fl_representable:
  assumes "x = of_int m * 2 powi k" and "\<bar>m\<bar> < 2 ^ 53" and "- 1074 \<le> k"
    and "\<bar>x\<bar> \<le> max_double"
  shows "fl x = Fin x"
  using assms(4) by (auto simp: fl_def rn_representable [OF assms(1-3)])

lemma fl_int:
  assumes "\<bar>n\<bar> < 2 ^ 53"
  shows "fl (of_int n) = Fin (of_int n)"
proof -
  have "\<bar>of_int n :: real\<bar> = of_int \<bar>n\<bar>" by simp
  also have "\<dots> \<le> of_int (2 ^ 53)" using assms by (simp only: of_int_le_iff)
  also have "\<dots> \<le> max_double" by (simp add: max_double_def)
  finally have "\<bar>of_int n :: real\<bar> \<le> max_double" .
  then show ?thesis
    by (intro fl_representable [where m = n and k = 0]) (use assms in simp_all)
qed

lemma js_le_PInfinity [simp]: "js_le a PInfinity \<longleftrightarrow> a \<noteq> NaN"
  by (cases a) simp_all

lemma js_le_NInfinity [simp]: "js_le NInfinity a \<longleftrightarrow> a \<noteq> NaN"
  by (cases a) simp_all

lemma js_le_refl: "a \<noteq> NaN \<Longrightarrow> js_le a a"
  by (cases a) simp_all

lemma js_gt_le: "js_gt a b \<Longrightarrow> js_le b a"
  by (cases a; cases b) simp_all

lemma js_neg_mono: "js_le a b \<Longrightarrow> js_le (js_neg b) (js_neg a)"
  by (cases a; cases b) simp_all

lemma js_neg_NaN_iff [simp]: "js_neg a = NaN \<longleftrightarrow> a = NaN"
  by (cases a) simp_all

lemma js_add_mono:
  assumes "js_le a a'" and "js_le b b'" and "js_add a b \<noteq> NaN" and "js_add a' b' \<noteq> NaN"
  shows "js_le (js_add a b) (js_add a' b')"
proof (cases a; cases a'; cases b; cases b')
  fix x x' y y'
  assume "a = Fin x" "a' = Fin x'" "b = Fin y" "b' = Fin y'"
  then show ?thesis using assms(1,2) by (simp add: fl_mono)
qed (use assms in \<open>simp_all add: js_le_refl\<close>)

lemma js_add_NaN [simp]: "js_add a NaN = NaN"
  by (cases a) simp_all

lemma js_mul_NaN [simp]: "js_mul a NaN = NaN"
  by (cases a) simp_all

lemma js_div_NaN [simp]: "js_div a NaN = NaN"
  by (cases a) simp_all

lemma js_sub_NaN [simp]: "js_sub NaN b = NaN" "js_sub a NaN = NaN"
  by (simp_all add: js_sub_def)

lemma js_sub_mono:
  assumes "js_le a a'" and "js_le b' b" and "js_sub a b \<noteq> NaN" and "js_sub a' b' \<noteq> NaN"
  shows "js_le (js_sub a b) (js_sub a' b')"
  using assms unfolding js_sub_def by (intro js_add_mono js_neg_mono)

lemma js_mul_mono:
  assumes "js_le a a'" and "js_le (Fin 0) R" and "js_mul a R \<noteq> NaN" and "js_mul a' R \<noteq> NaN"
  shows "js_le (js_mul a R) (js_mul a' R)"
proof (cases a; cases a'; cases R)
  fix x x' y
  assume "a = Fin x" "a' = Fin x'" "R = Fin y"
  then show ?thesis using assms(1,2) by (simp add: fl_mono mult_right_mono)
qed (use assms in \<open>auto split: if_splits\<close>)

lemma Math_max_zero:
  "Math_max (Fin 0) K = (if K = NaN then NaN else if js_gt K (Fin 0) then K else Fin 0)"
  by (cases K) simp_all

lemma Math_max_zero_nonneg: "K \<noteq> NaN \<Longrightarrow> js_le (Fin 0) (Math_max (Fin 0) K)"
  by (cases K) simp_all

lemma Math_max_zero_NaN [simp]: "Math_max (Fin 0) K = NaN \<longleftrightarrow> K = NaN"
  by (cases K) simp_all

lemma js_neg_neg [simp]: "js_neg (js_neg a) = a"
  by (cases a) simp_all

lemma Math_pow_nonneg:
  assumes "nonneg_or_NaN g"
  shows "nonneg_or_NaN (Math_pow g y)"
  using assms unfolding nonneg_or_NaN_def Math_pow_def
  by (cases g; cases y) (auto simp: fl_nonneg)

lemma Math_pow_zero [simp]: "Math_pow g (Fin 0) = Fin 1"
  by (simp add: Math_pow_def)

lemma js_add_nonneg:
  assumes "js_gt r (Fin (- 1))"
  shows "js_le (Fin 0) (js_add (Fin 1) r)"
proof (cases r)
  case (Fin x)
  then have "0 \<le> 1 + x" using assms by simp
  then show ?thesis unfolding Fin by (simp add: fl_nonneg)
qed (use assms in simp_all)

lemma js_div_one_nonneg:
  assumes "js_le (Fin 0) a"
  shows "js_le (Fin 0) (js_div (Fin 1) a)"
proof (cases a)
  case (Fin x)
  then have "0 \<le> 1 / x" using assms by simp
  then show ?thesis unfolding Fin by (simp add: fl_nonneg)
qed (use assms in simp_all)

lemma js_mul_nonneg:
  assumes "js_le (Fin 0) a" and "js_le (Fin 0) b"
  shows "nonneg_or_NaN (js_mul a b)"
proof (cases a; cases b)
  fix x y
  assume "a = Fin x" "b = Fin y"
  then show ?thesis using assms by (simp add: nonneg_or_NaN_def fl_nonneg)
qed (use assms in \<open>auto simp: nonneg_or_NaN_def\<close>)

subsection \<open>Second model: doubles and the rounding error\<close>

lemma is_double_rn: "is_double x \<Longrightarrow> rn x = x"
  unfolding is_double_def using rn_representable by blast

lemma is_double_minus: "is_double x \<Longrightarrow> is_double (- x)"
proof -
  assume "is_double x"
  then obtain m k where "x = of_int m * 2 powi k" "\<bar>m\<bar> < 2 ^ 53" "- 1074 \<le> k"
    unfolding is_double_def by blast
  then have "- x = of_int (- m) * 2 powi k \<and> \<bar>- m\<bar> < 2 ^ 53 \<and> - 1074 \<le> k" by simp
  then show ?thesis unfolding is_double_def by blast
qed

lemma round_even_bound:
  assumes "0 < x"
  shows "0 \<le> round_even (x / 2 powi ulp_exponent x) \<and>
         round_even (x / 2 powi ulp_exponent x) \<le> 2 ^ 53"
proof -
  have "x < 2 powi (ulp_exponent x + 53)" using assms by (rule below_next_binade)
  also have "\<dots> = 2 powi 53 * 2 powi ulp_exponent x" by (simp add: power_int_add)
  finally have "x / 2 powi ulp_exponent x \<le> of_int (2 ^ 53)" by (simp add: field_simps)
  then have "round_even (x / 2 powi ulp_exponent x) \<le> 2 ^ 53" by (rule round_even_le)
  moreover have "of_int 0 \<le> x / 2 powi ulp_exponent x" using assms by simp
  then have "0 \<le> round_even (x / 2 powi ulp_exponent x)" by (rule round_even_ge)
  ultimately show ?thesis by blast
qed

lemma rn_is_double_pos:
  assumes "0 < x"
  shows "is_double (rn x)"
proof -
  let ?e = "ulp_exponent x"
  let ?n = "round_even (x / 2 powi ?e)"
  have n: "0 \<le> ?n" "?n \<le> 2 ^ 53" using round_even_bound [OF assms] by blast+
  have r: "rn x = of_int ?n * 2 powi ?e" using assms by (rule rn_pos_eq)
  show ?thesis
  proof (cases "?n = 2 ^ 53")
    case True
    have "rn x = of_int (2 ^ 52) * 2 powi (?e + 1)"
      unfolding r True by (simp add: power_int_add)
    moreover have "\<bar>2 ^ 52 :: int\<bar> < 2 ^ 53" by simp
    moreover have "- 1074 \<le> ?e + 1" using ulp_exponent_ge [of x] by simp
    ultimately show ?thesis unfolding is_double_def by blast
  next
    case False
    then have "\<bar>?n\<bar> < 2 ^ 53" using n by simp
    then show ?thesis unfolding is_double_def using r ulp_exponent_ge [of x] by blast
  qed
qed

lemma is_double_zero: "is_double 0"
proof -
  have "(0::real) = of_int 0 * 2 powi 0 \<and> \<bar>0::int\<bar> < 2 ^ 53 \<and> (- 1074::int) \<le> 0" by simp
  then show ?thesis unfolding is_double_def by blast
qed

lemma rn_is_double: "is_double (rn x)"
proof -
  consider "0 < x" | "x = 0" | "x < 0" by linarith
  then show ?thesis
  proof cases
    case 1
    then show ?thesis by (rule rn_is_double_pos)
  next
    case 2
    then show ?thesis by (simp add: is_double_zero)
  next
    case 3
    then have "is_double (rn (- x))" by (intro rn_is_double_pos) simp
    then have "is_double (- rn (- x))" by (rule is_double_minus)
    then show ?thesis by (simp add: rn_minus)
  qed
qed

lemma rn_idem: "rn (rn x) = rn x"
  using rn_is_double by (rule is_double_rn)

lemma is_double_twice: "is_double x \<Longrightarrow> is_double (2 * x)"
proof -
  assume "is_double x"
  then obtain m k where x: "x = of_int m * 2 powi k" "\<bar>m\<bar> < 2 ^ 53" "- 1074 \<le> k"
    unfolding is_double_def by blast
  have "2 * x = of_int m * 2 powi (k + 1)" unfolding x(1) by (simp add: power_int_add)
  moreover have "- 1074 \<le> k + 1" using x(3) by simp
  ultimately show ?thesis unfolding is_double_def using x(2) by blast
qed

lemma is_double_half:
  assumes "is_double x" and "2 powi (- 1021) \<le> \<bar>x\<bar>"
  shows "is_double (x / 2)"
proof -
  obtain m k where x: "x = of_int m * 2 powi k" "\<bar>m\<bar> < 2 ^ 53" "- 1074 \<le> k"
    using assms(1) unfolding is_double_def by blast
  have "k \<noteq> - 1074"
  proof
    assume k: "k = - 1074"
    have "of_int \<bar>m\<bar> < (2::real) ^ 53"
      using x(2) by (metis of_int_less_iff of_int_numeral of_int_power)
    then have "\<bar>x\<bar> < 2 ^ 53 * 2 powi (- 1074)"
      unfolding x(1) k by (simp add: abs_mult mult_strict_right_mono)
    also have "\<dots> = 2 powi (- 1021)"
    proof -
      have "(2::real) powi (- 1021) = 2 powi (53 + (- 1074))" by simp
      also have "\<dots> = 2 powi 53 * 2 powi (- 1074)" by (rule power_int_add) simp
      finally show ?thesis by simp
    qed
    finally show False using assms(2) by simp
  qed
  then have k: "- 1074 \<le> k - 1" using x(3) by simp
  have "x / 2 = of_int m * 2 powi (k - 1)" unfolding x(1) by (simp add: power_int_diff)
  then show ?thesis unfolding is_double_def using x(2) k by blast
qed

lemma rn_abs_error: "\<bar>rn x - x\<bar> \<le> 2 powi ulp_exponent x / 2"
proof -
  have pos: "\<bar>rn x - x\<bar> \<le> 2 powi ulp_exponent x / 2" if "0 < x" for x
  proof -
    let ?e = "ulp_exponent x"
    let ?y = "x / 2 powi ?e"
    have "\<bar>of_int (round_even ?y) - ?y\<bar> \<le> 1 / 2" by (rule round_even_error)
    then have "\<bar>of_int (round_even ?y) - ?y\<bar> * 2 powi ?e \<le> 1 / 2 * 2 powi ?e"
      by (intro mult_right_mono) simp_all
    moreover have "\<bar>of_int (round_even ?y) - ?y\<bar> * 2 powi ?e =
        \<bar>of_int (round_even ?y) * 2 powi ?e - x\<bar>"
    proof -
      have "\<bar>of_int (round_even ?y) - ?y\<bar> * 2 powi ?e =
            \<bar>(of_int (round_even ?y) - ?y) * 2 powi ?e\<bar>"
        by (simp add: abs_mult)
      also have "(of_int (round_even ?y) - ?y) * 2 powi ?e =
                 of_int (round_even ?y) * 2 powi ?e - x"
        by (simp add: algebra_simps)
      finally show ?thesis .
    qed
    ultimately show ?thesis unfolding rn_pos_eq [OF that] by simp
  qed
  consider "0 < x" | "x = 0" | "x < 0" by linarith
  then show ?thesis
  proof cases
    case 1
    then show ?thesis by (rule pos)
  next
    case 2
    then show ?thesis by simp
  next
    case 3
    then have "\<bar>rn (- x) - (- x)\<bar> \<le> 2 powi ulp_exponent (- x) / 2" by (intro pos) simp
    then show ?thesis by (simp add: rn_minus abs_minus_commute)
  qed
qed

lemma rn_rel_error:
  assumes "2 powi (- 1022) \<le> x"
  shows "\<bar>rn x - x\<bar> \<le> x / 2 ^ 53"
proof -
  have x: "0 < x" using assms by (meson less_le_trans zero_less_numeral zero_less_power_int)
  have "2 powr of_int (- 1022) \<le> x" using assms by (simp only: powi_real)
  then have "of_int (- 1022) \<le> log 2 x" using x by (simp add: le_log_iff)
  then have "- 1022 \<le> \<lfloor>log 2 x\<rfloor>" by (simp add: le_floor_iff)
  then have e: "ulp_exponent x = \<lfloor>log 2 x\<rfloor> - 52"
    unfolding ulp_exponent_def using x by simp
  have "of_int (ulp_exponent x + 52) \<le> log 2 x" unfolding e by simp
  then have "2 powr of_int (ulp_exponent x + 52) \<le> x" using x by (simp add: le_log_iff)
  then have "2 powi (ulp_exponent x + 52) \<le> x" by (simp only: powi_real)
  then have "2 ^ 52 * 2 powi ulp_exponent x \<le> x" by (simp add: power_int_add)
  then have "2 powi ulp_exponent x / 2 \<le> x / 2 ^ 53" by (simp add: field_simps)
  with rn_abs_error [of x] show ?thesis by linarith
qed

lemma is_double_max_double: "is_double max_double"
proof -
  have "max_double = of_int (2 ^ 53 - 1) * 2 powi 971" by (simp add: max_double_def)
  moreover have "\<bar>2 ^ 53 - 1 :: int\<bar> < 2 ^ 53" by simp
  moreover have "(- 1074 :: int) \<le> 971" by simp
  ultimately show ?thesis unfolding is_double_def by blast
qed

lemma fl_finite:
  assumes "\<bar>x\<bar> \<le> max_double"
  shows "fl x = Fin (rn x)"
proof -
  have "rn x \<le> rn max_double" using assms by (intro rn_mono) simp
  moreover have "rn (- max_double) \<le> rn x" using assms by (intro rn_mono) simp
  ultimately show ?thesis
    by (simp add: fl_def rn_minus is_double_rn [OF is_double_max_double])
qed

lemma width_step:
  fixes w A H :: real
  assumes "w \<le> A / 2 ^ n + H / 2 ^ 52 * (1 - 1 / 2 ^ n)"
  shows "w / 2 + H / 2 ^ 53 \<le> A / 2 ^ Suc n + H / 2 ^ 52 * (1 - 1 / 2 ^ Suc n)"
proof -
  define u :: real where "u = 1 / 2 ^ n"
  define c :: real where "c = H / 2 ^ 53"
  have h: "H / 2 ^ 52 = 2 * c" by (simp add: c_def)
  have a: "A / 2 ^ n = A * u" "A / 2 ^ Suc n = A * u / 2" "1 / 2 ^ Suc n = u / 2"
    by (simp_all add: u_def)
  have "w \<le> A * u + 2 * c * (1 - u)" using assms unfolding h a u_def [symmetric] .
  then have "w / 2 + c \<le> A * u / 2 + 2 * c * (1 - u / 2)"
    by (simp add: algebra_simps)
  then show ?thesis unfolding h a(2,3) c_def [symmetric] .
qed

subsection \<open>Second model: the loops as recursion on the number of periods\<close>

lemma js_simulate_loop_capital_after:
  "0 \<le> t \<Longrightarrow> t \<le> T \<Longrightarrow> K = js_capital_after K0 C1 g r (nat t) \<Longrightarrow>
   js_simulate_loop C1 g r T t K = js_capital_after K0 C1 g r (nat T)"
proof (induction C1 g r T t K rule: js_simulate_loop.induct)
  case (1 C1 g r T t K)
  show ?case
  proof (cases "t < T")
    case True
    let ?K' = "js_mul (js_sub K (js_mul C1 (Math_pow g (Fin (of_int t))))) (js_add (Fin 1) r)"
    have step: "?K' = js_capital_after K0 C1 g r (nat (t + 1))"
      using "1.prems" by (simp add: nat_add_distrib)
    have "js_simulate_loop C1 g r T t K = js_simulate_loop C1 g r T (t + 1) ?K'"
      using True by (subst js_simulate_loop.simps) simp
    also have "\<dots> = js_capital_after K0 C1 g r (nat T)"
      using "1.IH" [OF True refl _ _ step] "1.prems" True by simp
    finally show ?thesis .
  next
    case False
    with "1.prems" have "t = T" by simp
    then show ?thesis using "1.prems" by (subst js_simulate_loop.simps) simp
  qed
qed

lemma js_terminal_capital_eq:
  "js_terminal_capital p C1 =
   js_capital_after (js_initialCapital p) C1 (js_growthRate p) (js_annualReturn p)
     (nat (js_lifeExpectancy p - js_currentAge p))"
proof (cases "0 \<le> js_lifeExpectancy p - js_currentAge p")
  case True
  then show ?thesis
    unfolding js_terminal_capital_def
    by (intro js_simulate_loop_capital_after) simp_all
next
  case False
  then show ?thesis
    unfolding js_terminal_capital_def
    by (subst js_simulate_loop.simps) simp
qed

lemma js_series_loop_eq:
  "0 \<le> t \<Longrightarrow> t \<le> T + 1 \<Longrightarrow> K = js_capital_after K0 C1 g r (nat t) \<Longrightarrow>
   snd (js_series_loop C1 g r T t (K, data)) =
   data @ map (js_point K0 C1 g r) [nat t ..< nat (T + 1)]"
proof (induction C1 g r T t "(K, data)" arbitrary: K data rule: js_series_loop.induct)
  case (1 C1 g r T t K data)
  show ?case
  proof (cases "t \<le> T")
    case True
    let ?c = "js_mul C1 (Math_pow g (Fin (of_int t)))"
    let ?d = "data @ [\<lparr>js_period = t, js_capital = Math_max (Fin 0) K, js_consumption = ?c\<rparr>]"
    let ?K' = "js_mul (js_sub K ?c) (js_add (Fin 1) r)"
    have step: "?K' = js_capital_after K0 C1 g r (nat (t + 1))"
      using "1.prems" by (simp add: nat_add_distrib)
    have pt: "\<lparr>js_period = t, js_capital = Math_max (Fin 0) K, js_consumption = ?c\<rparr> =
              js_point K0 C1 g r (nat t)"
      using "1.prems" by (simp add: js_point_def)
    have lt: "nat t < nat (T + 1)" using True "1.prems" by linarith
    have suc: "nat (t + 1) = Suc (nat t)" using "1.prems" by linarith
    have upt: "[nat t ..< nat (T + 1)] = nat t # [nat (t + 1) ..< nat (T + 1)]"
      unfolding suc by (rule upt_conv_Cons [OF lt])
    have "snd (js_series_loop C1 g r T t (K, data)) =
          snd (js_series_loop C1 g r T (t + 1) (?K', ?d))"
      using True by (subst js_series_loop.simps) (simp add: Let_def)
    also have "\<dots> = ?d @ map (js_point K0 C1 g r) [nat (t + 1) ..< nat (T + 1)]"
      using "1.hyps" [OF True refl refl _ _ step] "1.prems" True by simp
    finally show ?thesis by (simp add: pt upt)
  next
    case False
    with "1.prems" have "t = T + 1" by simp
    then show ?thesis by (subst js_series_loop.simps) simp
  qed
qed

lemma js_series_eq:
  "js_generateOptimizationData p =
   map (js_point (js_initialCapital p) (js_C1 (js_solve p)) (js_growthRate p) (js_annualReturn p))
     [0 ..< nat (js_lifeExpectancy p - js_currentAge p + 1)]"
proof (cases "0 \<le> js_lifeExpectancy p - js_currentAge p + 1")
  case True
  have "snd (js_series_loop (js_C1 (js_solve p)) (js_growthRate p) (js_annualReturn p)
               (js_lifeExpectancy p - js_currentAge p) 0 (js_initialCapital p, [])) =
        [] @ map (js_point (js_initialCapital p) (js_C1 (js_solve p)) (js_growthRate p)
                    (js_annualReturn p))
               [nat 0 ..< nat (js_lifeExpectancy p - js_currentAge p + 1)]"
    by (rule js_series_loop_eq) (use True in simp_all)
  then show ?thesis
    unfolding js_generateOptimizationData_def Let_def by simp
next
  case False
  then show ?thesis
    unfolding js_generateOptimizationData_def Let_def
    by (subst js_series_loop.simps) simp
qed

lemma js_bisect_loop_funpow:
  "js_bisect_loop p i s = (js_bisect_body p ^^ nat (50 - i)) s"
proof (induction p i s rule: js_bisect_loop.induct)
  case (1 p i s)
  show ?case
  proof (cases "i < 50")
    case True
    then have n: "nat (50 - i) = Suc (nat (50 - (i + 1)))" by simp
    have "js_bisect_loop p i s = js_bisect_loop p (i + 1) (js_bisect_body p s)"
      using True by (subst js_bisect_loop.simps) simp
    also have "\<dots> = (js_bisect_body p ^^ nat (50 - (i + 1))) (js_bisect_body p s)"
      using "1.IH" [OF True] .
    finally show ?thesis unfolding n by (simp add: funpow_swap1)
  next
    case False
    then show ?thesis by (subst js_bisect_loop.simps) simp
  qed
qed

lemma js_bisect_body_bracket:
  assumes "js_low s = fst (js_bracket p n)" and "js_high s = snd (js_bracket p n)"
  shows "js_bisect_body p s =
         \<lparr>js_K = js_terminal_capital p (js_midpoint (js_bracket p n)),
          js_C1 = js_midpoint (js_bracket p n),
          js_low = fst (js_bracket p (Suc n)), js_high = snd (js_bracket p (Suc n))\<rparr>"
proof -
  have m: "js_div (js_add (js_low s) (js_high s)) (Fin 2) = js_midpoint (js_bracket p n)"
    by (simp add: js_midpoint_def assms)
  show ?thesis
  proof (cases "js_gt (js_terminal_capital p (js_midpoint (js_bracket p n))) (js_inheritanceTarget p)")
    case True
    then show ?thesis
      unfolding js_bisect_body_def Let_def m using assms(2)
      by (cases s) (simp add: Let_def)
  next
    case False
    then show ?thesis
      unfolding js_bisect_body_def Let_def m using assms(1)
      by (cases s) (simp add: Let_def)
  qed
qed

lemma js_bisect_funpow_bracket:
  assumes "js_low s0 = fst (js_bracket p 0)" and "js_high s0 = snd (js_bracket p 0)"
  shows "(js_bisect_body p ^^ Suc n) s0 =
         \<lparr>js_K = js_terminal_capital p (js_midpoint (js_bracket p n)),
          js_C1 = js_midpoint (js_bracket p n),
          js_low = fst (js_bracket p (Suc n)), js_high = snd (js_bracket p (Suc n))\<rparr>"
proof (induction n)
  case 0
  show ?case using js_bisect_body_bracket [OF assms] by simp
next
  case (Suc n)
  have "(js_bisect_body p ^^ Suc (Suc n)) s0 =
        js_bisect_body p ((js_bisect_body p ^^ Suc n) s0)"
    by simp
  also have "\<dots> = \<lparr>js_K = js_terminal_capital p (js_midpoint (js_bracket p (Suc n))),
          js_C1 = js_midpoint (js_bracket p (Suc n)),
          js_low = fst (js_bracket p (Suc (Suc n))),
          js_high = snd (js_bracket p (Suc (Suc n)))\<rparr>"
    unfolding Suc.IH by (rule js_bisect_body_bracket) simp_all
  finally show ?case .
qed

lemma js_solve_bracket:
  "js_solve p =
   \<lparr>js_K = js_terminal_capital p (js_midpoint (js_bracket p 49)),
    js_C1 = js_midpoint (js_bracket p 49),
    js_low = fst (js_bracket p 50), js_high = snd (js_bracket p 50)\<rparr>"
proof -
  have n: "nat (50 - 0) = Suc 49" by simp
  have e: "(50::nat) = Suc 49" by simp
  show ?thesis
    unfolding js_solve_def Let_def js_bisect_loop_funpow n e
    by (rule js_bisect_funpow_bracket) simp_all
qed

subsection \<open>Second model: the terminal capital does not increase with the candidate\<close>

lemma js_mul_not_NaN: "js_mul a b \<noteq> NaN \<Longrightarrow> a \<noteq> NaN \<and> b \<noteq> NaN"
  by (cases a; cases b) simp_all

lemma js_sub_not_NaN: "js_sub a b \<noteq> NaN \<Longrightarrow> a \<noteq> NaN \<and> b \<noteq> NaN"
  by (cases a; cases b) (simp_all add: js_sub_def)

lemma nonneg_or_NaN_le: "nonneg_or_NaN a \<Longrightarrow> a \<noteq> NaN \<Longrightarrow> js_le (Fin 0) a"
  by (simp add: nonneg_or_NaN_def)

lemma js_capital_after_antimono:
  assumes c: "js_le c c'" and g: "nonneg_or_NaN g" and r: "js_le (Fin 0) (js_add (Fin 1) r)"
  shows "js_capital_after K0 c g r n \<noteq> NaN \<Longrightarrow> js_capital_after K0 c' g r n \<noteq> NaN \<Longrightarrow>
         js_le (js_capital_after K0 c' g r n) (js_capital_after K0 c g r n)"
proof (induction n)
  case 0
  then show ?case by (simp add: js_le_refl)
next
  case (Suc n)
  let ?P = "Math_pow g (Fin (of_nat n))"
  let ?R = "js_add (Fin 1) r"
  let ?k = "js_capital_after K0 c g r n" and ?k' = "js_capital_after K0 c' g r n"
  have e: "js_capital_after K0 c g r (Suc n) = js_mul (js_sub ?k (js_mul c ?P)) ?R"
    "js_capital_after K0 c' g r (Suc n) = js_mul (js_sub ?k' (js_mul c' ?P)) ?R"
    by (simp_all only: js_capital_after.simps)
  have t: "js_mul (js_sub ?k (js_mul c ?P)) ?R \<noteq> NaN"
    "js_mul (js_sub ?k' (js_mul c' ?P)) ?R \<noteq> NaN"
    using Suc.prems unfolding e by blast+
  have s: "js_sub ?k (js_mul c ?P) \<noteq> NaN" "js_sub ?k' (js_mul c' ?P) \<noteq> NaN"
    using t [THEN js_mul_not_NaN] by blast+
  have k: "?k \<noteq> NaN" "?k' \<noteq> NaN"
    using s [THEN js_sub_not_NaN] by blast+
  have m: "js_mul c ?P \<noteq> NaN" "js_mul c' ?P \<noteq> NaN"
    using s [THEN js_sub_not_NaN] by blast+
  have "?P \<noteq> NaN" using m(1) [THEN js_mul_not_NaN] by blast
  then have P: "js_le (Fin 0) ?P"
    using Math_pow_nonneg [OF g] by (rule nonneg_or_NaN_le [rotated])
  have 1: "js_le (js_mul c ?P) (js_mul c' ?P)"
    using c P m by (rule js_mul_mono)
  have 2: "js_le ?k' ?k" using k by (rule Suc.IH)
  have 3: "js_le (js_sub ?k' (js_mul c' ?P)) (js_sub ?k (js_mul c ?P))"
    using 2 1 s(2) s(1) by (rule js_sub_mono)
  have "js_le (js_mul (js_sub ?k' (js_mul c' ?P)) ?R) (js_mul (js_sub ?k (js_mul c ?P)) ?R)"
    using 3 r t(2) t(1) by (rule js_mul_mono)
  then show ?case unfolding e .
qed

lemma js_growthRate_nonneg:
  assumes "js_gt (js_annualReturn p) (Fin (- 1))" and "js_gt (js_discountRate p) (Fin (- 1))"
  shows "nonneg_or_NaN (js_growthRate p)"
proof -
  have "js_le (Fin 0) (js_add (Fin 1) (js_discountRate p))"
    using assms(2) by (rule js_add_nonneg)
  then have "js_le (Fin 0) (js_beta p)"
    unfolding js_beta_def by (rule js_div_one_nonneg)
  moreover have "js_le (Fin 0) (js_add (Fin 1) (js_annualReturn p))"
    using assms(1) by (rule js_add_nonneg)
  ultimately have "nonneg_or_NaN (js_mul (js_beta p) (js_add (Fin 1) (js_annualReturn p)))"
    by (rule js_mul_nonneg)
  then show ?thesis unfolding js_growthRate_def by (rule Math_pow_nonneg)
qed

lemma js_terminal_capital_antimono:
  assumes "js_gt (js_annualReturn p) (Fin (- 1))" and "js_gt (js_discountRate p) (Fin (- 1))"
    and "js_le c c'"
    and "js_terminal_capital p c \<noteq> NaN" and "js_terminal_capital p c' \<noteq> NaN"
  shows "js_le (js_terminal_capital p c') (js_terminal_capital p c)"
proof -
  have g: "nonneg_or_NaN (js_growthRate p)" using assms(1,2) by (rule js_growthRate_nonneg)
  have r: "js_le (Fin 0) (js_add (Fin 1) (js_annualReturn p))"
    using assms(1) by (rule js_add_nonneg)
  show ?thesis
    using assms(4,5) unfolding js_terminal_capital_eq
    by (rule js_capital_after_antimono [OF assms(3) g r])
qed

subsection \<open>Second model: two neighbouring candidates and a NaN growth rate\<close>

lemma fl_dyadic:
  assumes "\<bar>m\<bar> < 2 ^ 53" and "0 \<le> k" and "k \<le> 1000" and "\<bar>of_int m / 2 ^ k :: real\<bar> \<le> 2 ^ 53"
  shows "fl (of_int m / 2 ^ k) = Fin (of_int m / 2 ^ k)"
proof (rule fl_representable [where m = m and k = "- int k"])
  show "(of_int m / 2 ^ k :: real) = of_int m * 2 powi (- int k)"
    by (simp add: power_int_minus field_simps)
  show "\<bar>of_int m / 2 ^ k :: real\<bar> \<le> max_double"
    using assms(4) by (simp add: max_double_def)
qed (use assms in simp_all)

lemma fl_one: "fl 1 = Fin 1"
  using fl_int [of 1] by simp

lemma rounding_plan_terminal:
  "js_terminal_capital rounding_plan c =
   js_mul (js_sub (Fin 1000000) (js_mul c (Fin 1))) (js_add (Fin 1) (Fin (1 / 16)))"
  by (simp add: js_terminal_capital_eq rounding_plan_def)

lemma sub_exact: "js_sub (Fin 1000000) (Fin 1) = Fin 999999"
  using fl_int [of 999999] by (simp add: js_sub_def)

lemma sub_rounded: "js_sub (Fin 1000000) (Fin (1 + 1 / 2 ^ 52)) = Fin 999999"
proof -
  have "rn (999999 - 1 / 2 ^ 52) =
        of_int (round_even ((999999 - 1 / 2 ^ 52) / 2 powi (19 - 52))) * 2 powi (19 - 52)"
    by (rule rn_eval) simp_all
  also have "round_even ((999999 - 1 / 2 ^ 52) / 2 powi (19 - 52)) = 999999 * 2 ^ 33"
    by (simp add: round_even_def Let_def power_int_minus)
  finally have "rn (999999 - 1 / 2 ^ 52) = 999999" by (simp add: power_int_minus)
  then have "fl (999999 - 1 / 2 ^ 52) = Fin 999999"
    by (simp add: fl_def max_double_def)
  moreover have "(1000000::real) + - (1 + 1 / 2 ^ 52) = 999999 - 1 / 2 ^ 52" by simp
  ultimately show ?thesis by (simp only: js_sub_def js_neg.simps js_add.simps)
qed

lemma mul_one_exact: "js_mul (Fin 1) (Fin 1) = Fin 1"
  by (simp add: fl_one)

lemma mul_next_exact: "js_mul (Fin (1 + 1 / 2 ^ 52)) (Fin 1) = Fin (1 + 1 / 2 ^ 52)"
proof -
  have "fl (of_int (2 ^ 52 + 1) / 2 ^ 52) = Fin (of_int (2 ^ 52 + 1) / 2 ^ 52)"
    by (rule fl_dyadic) simp_all
  moreover have "(of_int (2 ^ 52 + 1) / 2 ^ 52 :: real) = 1 + 1 / 2 ^ 52" by simp
  ultimately show ?thesis by simp
qed

lemma growth_factor_exact: "js_add (Fin 1) (Fin (1 / 16)) = Fin (17 / 16)"
proof -
  have "fl (of_int 17 / 2 ^ 4) = Fin (of_int 17 / 2 ^ 4)"
    by (rule fl_dyadic) simp_all
  then show ?thesis by simp
qed

lemma product_exact: "js_mul (Fin 999999) (Fin (17 / 16)) = Fin (16999983 / 16)"
proof -
  have "fl (of_int 16999983 / 2 ^ 4) = Fin (of_int 16999983 / 2 ^ 4)"
    by (rule fl_dyadic) simp_all
  then show ?thesis by simp
qed

lemma js_series_nth:
  assumes "0 \<le> t" and "t \<le> js_lifeExpectancy p - js_currentAge p"
  shows "js_generateOptimizationData p ! nat t =
         js_point (js_initialCapital p) (js_C1 (js_solve p)) (js_growthRate p)
           (js_annualReturn p) (nat t)"
proof -
  have "nat t < nat (js_lifeExpectancy p - js_currentAge p + 1)" using assms by linarith
  then show ?thesis unfolding js_series_eq by simp
qed

lemma fl_minus_one: "fl (- 1) = Fin (- 1)"
  using fl_int [of "- 1"] by simp

lemma fl_half: "fl (1 / 2) = Fin (1 / 2)"
proof -
  have "fl (of_int 1 / 2 ^ 1) = Fin (of_int 1 / 2 ^ 1)"
    by (rule fl_dyadic) simp_all
  then show ?thesis by simp
qed

lemma js_growthRate_nan_plan: "js_growthRate nan_plan = NaN"
proof -
  have "js_beta nan_plan = Fin 1"
    by (simp add: js_beta_def nan_plan_def fl_one)
  moreover have "js_add (Fin 1) (js_annualReturn nan_plan) = Fin (- 1)"
    by (simp add: nan_plan_def fl_minus_one)
  moreover have "js_div (Fin 1) (js_riskAversion nan_plan) = Fin (1 / 2)"
    by (simp add: nan_plan_def fl_half)
  ultimately show ?thesis
    unfolding js_growthRate_def by (simp add: fl_minus_one Math_pow_def)
qed

lemma js_capital_after_NaN_growth:
  "js_capital_after K0 C1 NaN r (Suc (Suc n)) = NaN"
proof (induction n)
  case 0
  have "Math_pow NaN (Fin (of_nat (Suc 0))) = NaN" by (simp add: Math_pow_def)
  then show ?case by simp
next
  case (Suc n)
  show ?case by (subst js_capital_after.simps) (simp only: Suc.IH js_sub_NaN js_mul.simps)
qed

subsection \<open>Second model: the bracket of the bisection\<close>

lemma is_double_dyadic:
  assumes "\<bar>m\<bar> < 2 ^ 53" and "k \<le> 1074"
  shows "is_double (of_int m / 2 ^ k)"
proof -
  have "(of_int m / 2 ^ k :: real) = of_int m * 2 powi (- int k)"
    by (simp add: power_int_minus field_simps)
  moreover have "- 1074 \<le> - int k" using assms(2) by simp
  ultimately show ?thesis unfolding is_double_def using assms(1) by blast
qed

lemma hundredth_bounds: "1 / 128 \<le> rn (1 / 100)" "rn (1 / 100) \<le> 1 / 64"
proof -
  have a: "is_double (1 / 128)" using is_double_dyadic [of 1 7] by simp
  have b: "is_double (1 / 64)" using is_double_dyadic [of 1 6] by simp
  show "1 / 128 \<le> rn (1 / 100)" using rn_mono [of "1 / 128" "1 / 100"] is_double_rn [OF a] by simp
  show "rn (1 / 100) \<le> 1 / 64" using rn_mono [of "1 / 100" "1 / 64"] is_double_rn [OF b] by simp
qed

lemma fifteen_hundredths_bounds: "1 / 8 \<le> rn (15 / 100)" "rn (15 / 100) \<le> 1 / 4"
proof -
  have a: "is_double (1 / 8)" using is_double_dyadic [of 1 3] by simp
  have b: "is_double (1 / 4)" using is_double_dyadic [of 1 2] by simp
  show "1 / 8 \<le> rn (15 / 100)" using rn_mono [of "1 / 8" "15 / 100"] is_double_rn [OF a] by simp
  show "rn (15 / 100) \<le> 1 / 4" using rn_mono [of "15 / 100" "1 / 4"] is_double_rn [OF b] by simp
qed

lemma max_double_ge: "2 ^ 60 \<le> max_double"
  by (simp add: max_double_def)

lemma fl_hundredth: "fl (1 / 100) = Fin (rn (1 / 100))"
  by (rule fl_finite) (use max_double_ge in simp)

lemma fl_fifteen_hundredths: "fl (15 / 100) = Fin (rn (15 / 100))"
  by (rule fl_finite) (use max_double_ge in simp)

lemma is_double_quarter_max: "is_double (max_double / 4)"
proof -
  have "max_double / 4 = of_int (2 ^ 53 - 1) * 2 powi 969" by (simp add: max_double_def)
  moreover have "\<bar>2 ^ 53 - 1 :: int\<bar> < 2 ^ 53" by simp
  moreover have "(- 1074 :: int) \<le> 969" by simp
  ultimately show ?thesis unfolding is_double_def by blast
qed

lemma initial_bracket:
  assumes "1 \<le> k" and "k \<le> max_double"
  shows "js_mul (Fin k) (fl (1 / 100)) = Fin (rn (k * rn (1 / 100)))"
    and "js_mul (Fin k) (fl (15 / 100)) = Fin (rn (k * rn (15 / 100)))"
    and "1 / 128 \<le> rn (k * rn (1 / 100))"
    and "rn (k * rn (1 / 100)) \<le> rn (k * rn (15 / 100))"
    and "rn (k * rn (15 / 100)) \<le> max_double / 4"
proof -
  have k: "0 \<le> k" using assms(1) by simp
  have c: "0 \<le> rn (1 / 100)" "0 \<le> rn (15 / 100)"
    using hundredth_bounds(1) fifteen_hundredths_bounds(1) by linarith+
  have "k * rn (1 / 100) \<le> max_double * (1 / 64)"
    using assms(2) hundredth_bounds(2) k c(1) max_double_pos by (intro mult_mono) simp_all
  then have "\<bar>k * rn (1 / 100)\<bar> \<le> max_double"
    using k c(1) max_double_pos by (simp add: abs_mult)
  then show "js_mul (Fin k) (fl (1 / 100)) = Fin (rn (k * rn (1 / 100)))"
    unfolding fl_hundredth js_mul.simps by (rule fl_finite)
  have "k * rn (15 / 100) \<le> max_double * (1 / 4)"
    using assms(2) fifteen_hundredths_bounds(2) k c(2) max_double_pos
    by (intro mult_mono) simp_all
  then have q: "k * rn (15 / 100) \<le> max_double / 4" by simp
  then have "\<bar>k * rn (15 / 100)\<bar> \<le> max_double"
    using k c(2) max_double_pos by (simp add: abs_mult)
  then show "js_mul (Fin k) (fl (15 / 100)) = Fin (rn (k * rn (15 / 100)))"
    unfolding fl_fifteen_hundredths js_mul.simps by (rule fl_finite)
  have "1 * (1 / 128) \<le> k * rn (1 / 100)"
    using assms(1) hundredth_bounds(1) by (intro mult_mono) simp_all
  then have "rn (1 / 128) \<le> rn (k * rn (1 / 100))" by (intro rn_mono) simp
  moreover have "is_double (1 / 128)" using is_double_dyadic [of 1 7] by simp
  ultimately show "1 / 128 \<le> rn (k * rn (1 / 100))" by (simp add: is_double_rn)
  have "rn (1 / 100) \<le> rn (15 / 100)"
    using hundredth_bounds(2) fifteen_hundredths_bounds(1) by linarith
  then have "k * rn (1 / 100) \<le> k * rn (15 / 100)" using k by (rule mult_left_mono)
  then show "rn (k * rn (1 / 100)) \<le> rn (k * rn (15 / 100))" by (rule rn_mono)
  show "rn (k * rn (15 / 100)) \<le> max_double / 4"
    using rn_mono [OF q] is_double_rn [OF is_double_quarter_max] by simp
qed

lemma midpoint_step:
  assumes "is_double l" and "is_double h" and "1 / 128 \<le> l" and "l \<le> h"
    and "h \<le> max_double / 4"
  shows "\<exists>m. js_midpoint (Fin l, Fin h) = Fin m \<and> is_double m \<and> l \<le> m \<and> m \<le> h \<and>
             \<bar>m - (l + h) / 2\<bar> \<le> h / 2 ^ 53"
proof -
  let ?s = "rn (l + h)"
  have mx: "0 < max_double" by (rule max_double_pos)
  have sum: "\<bar>l + h\<bar> \<le> max_double" using assms(3-5) mx by simp
  have add: "fl (l + h) = Fin ?s" using sum by (rule fl_finite)
  have "rn (2 * l) \<le> ?s" using assms(4) by (intro rn_mono) simp
  then have lo: "2 * l \<le> ?s" using is_double_rn [OF is_double_twice [OF assms(1)]] by simp
  have "?s \<le> rn (2 * h)" using assms(4) by (intro rn_mono) simp
  then have hi: "?s \<le> 2 * h" using is_double_rn [OF is_double_twice [OF assms(2)]] by simp
  have "(2::real) powi (- 1021) \<le> 2 powi (- 6)" by (intro power_int_increasing) simp_all
  also have "\<dots> = 1 / 64" by (simp add: power_int_minus)
  finally have "2 powi (- 1021) \<le> \<bar>?s\<bar>" using lo assms(3) by simp
  then have half: "is_double (?s / 2)" using rn_is_double by (rule is_double_half [rotated])
  have "\<bar>?s / 2\<bar> \<le> max_double" using lo hi assms(3,5) mx by simp
  then have "fl (?s / 2) = Fin (?s / 2)" by (simp add: fl_finite is_double_rn [OF half])
  then have mid: "js_midpoint (Fin l, Fin h) = Fin (?s / 2)"
    unfolding js_midpoint_def by (simp add: add)
  have "(2::real) powi (- 1022) \<le> 2 powi (- 7)" by (intro power_int_increasing) simp_all
  also have "\<dots> = 1 / 128" by (simp add: power_int_minus)
  finally have "2 powi (- 1022) \<le> l + h" using assms(3,4) by simp
  then have "\<bar>?s - (l + h)\<bar> \<le> (l + h) / 2 ^ 53" by (rule rn_rel_error)
  moreover have "(l + h) / 2 ^ 53 \<le> 2 * h / 2 ^ 53"
    using assms(4) by (intro divide_right_mono) simp_all
  ultimately have "\<bar>?s - (l + h)\<bar> \<le> 2 * h / 2 ^ 53" by linarith
  moreover define e where "e = h / 2 ^ 53"
  ultimately have "\<bar>?s - (l + h)\<bar> \<le> 2 * e" by simp
  moreover have "\<bar>?s / 2 - (l + h) / 2\<bar> = \<bar>?s - (l + h)\<bar> / 2"
  proof -
    have "?s / 2 - (l + h) / 2 = (?s - (l + h)) / 2" by (simp add: diff_divide_distrib)
    then show ?thesis by (simp only: abs_divide)
  qed
  ultimately have "\<bar>?s / 2 - (l + h) / 2\<bar> \<le> e" by simp
  then have err: "\<bar>?s / 2 - (l + h) / 2\<bar> \<le> h / 2 ^ 53" unfolding e_def .
  from mid half lo hi err show ?thesis by (intro exI [of _ "?s / 2"]) simp
qed

lemma js_bracket_bounds:
  assumes "js_initialCapital p = Fin k" and "1 \<le> k" and "k \<le> max_double"
  shows "\<exists>l h. js_bracket p n = (Fin l, Fin h) \<and> is_double l \<and> is_double h \<and>
           rn (k * rn (1 / 100)) \<le> l \<and> l \<le> h \<and> h \<le> rn (k * rn (15 / 100)) \<and>
           h - l \<le> (rn (k * rn (15 / 100)) - rn (k * rn (1 / 100))) / 2 ^ n +
                   rn (k * rn (15 / 100)) / 2 ^ 52 * (1 - 1 / 2 ^ n)"
proof (induction n)
  case 0
  let ?l0 = "rn (k * rn (1 / 100))" and ?h0 = "rn (k * rn (15 / 100))"
  have "js_bracket p 0 = (Fin ?l0, Fin ?h0)"
    using initial_bracket(1,2) [OF assms(2,3)] by (simp add: assms(1))
  moreover have "is_double ?l0" "is_double ?h0" by (rule rn_is_double)+
  moreover have "?l0 \<le> ?h0" by (rule initial_bracket(4) [OF assms(2,3)])
  ultimately show ?case by (intro exI [of _ ?l0] exI [of _ ?h0]) simp
next
  case (Suc n)
  let ?l0 = "rn (k * rn (1 / 100))" and ?h0 = "rn (k * rn (15 / 100))"
  from Suc.IH obtain l h where b: "js_bracket p n = (Fin l, Fin h)"
    and d: "is_double l" "is_double h"
    and o: "?l0 \<le> l" "l \<le> h" "h \<le> ?h0"
    and w: "h - l \<le> (?h0 - ?l0) / 2 ^ n + ?h0 / 2 ^ 52 * (1 - 1 / 2 ^ n)"
    by blast
  have l: "1 / 128 \<le> l" using initial_bracket(3) [OF assms(2,3)] o(1) by linarith
  have h: "h \<le> max_double / 4" using initial_bracket(5) [OF assms(2,3)] o(3) by linarith
  from midpoint_step [OF d l o(2) h] obtain m where
    m: "js_midpoint (Fin l, Fin h) = Fin m" "is_double m" "l \<le> m" "m \<le> h"
    and e: "\<bar>m - (l + h) / 2\<bar> \<le> h / 2 ^ 53"
    by blast
  have h0: "0 \<le> ?h0" using l o by linarith
  have "h / 2 ^ 53 \<le> ?h0 / 2 ^ 53" using o(3) by (intro divide_right_mono) simp_all
  with e have e': "\<bar>m - (l + h) / 2\<bar> \<le> ?h0 / 2 ^ 53" by linarith
  define W where "W = (?h0 - ?l0) / 2 ^ Suc n + ?h0 / 2 ^ 52 * (1 - 1 / 2 ^ Suc n)"
  define c where "c = ?h0 / 2 ^ 53"
  define d where "d = m - (l + h) / 2"
  have half: "(h - l) / 2 + c \<le> W" using width_step [OF w] unfolding W_def c_def .
  have "\<bar>d\<bar> \<le> c" using e' unfolding d_def c_def .
  then have dc: "d \<le> c" "- d \<le> c" by linarith+
  have hm: "h - m = (h - l) / 2 - d" "m - l = (h - l) / 2 + d"
    unfolding d_def by (simp_all add: field_simps)
  have up: "h - m \<le> W" using hm dc half by linarith
  have dn: "m - l \<le> W" using hm dc half by linarith
  show ?case
  proof (cases "js_gt (js_terminal_capital p (Fin m)) (js_inheritanceTarget p)")
    case True
    then have "js_bracket p (Suc n) = (Fin m, Fin h)" by (simp add: b m(1) Let_def)
    moreover have "?l0 \<le> m" using o(1) m(3) by linarith
    ultimately show ?thesis using m(2,4) d(2) o(3) up unfolding W_def
      by (intro exI [of _ m] exI [of _ h]) blast
  next
    case False
    then have "js_bracket p (Suc n) = (Fin l, Fin m)" by (simp add: b m(1) Let_def)
    moreover have "m \<le> ?h0" using o(3) m(4) by linarith
    ultimately show ?thesis using m(2,3) d(1) o(1) dn unfolding W_def
      by (intro exI [of _ l] exI [of _ m]) blast
  qed
qed

lemma js_le_not_gt: "js_le a b \<Longrightarrow> \<not> js_gt a b"
  by (cases a; cases b) simp_all

lemma js_bracket_sign:
  assumes "js_le (js_inheritanceTarget p) (js_terminal_capital p (fst (js_bracket p 0)))"
    and "\<not> js_gt (js_terminal_capital p (snd (js_bracket p 0))) (js_inheritanceTarget p)"
  shows "js_le (js_inheritanceTarget p) (js_terminal_capital p (fst (js_bracket p n))) \<and>
         \<not> js_gt (js_terminal_capital p (snd (js_bracket p n))) (js_inheritanceTarget p)"
proof (induction n)
  case 0
  show ?case using assms by blast
next
  case (Suc n)
  then show ?case by (simp add: Let_def js_gt_le del: js_bracket.simps(1))
qed

lemma js_midpoint_in_next:
  "js_midpoint (js_bracket p n) = fst (js_bracket p (Suc n)) \<or>
   js_midpoint (js_bracket p n) = snd (js_bracket p (Suc n))"
  by (simp add: Let_def)

lemma js_solve_C1: "js_C1 (js_solve p) = js_midpoint (js_bracket p 49)"
  by (subst js_solve_bracket) simp

lemma js_solve_low: "js_low (js_solve p) = fst (js_bracket p 50)"
  by (subst js_solve_bracket) simp

lemma js_solve_high: "js_high (js_solve p) = snd (js_bracket p 50)"
  by (subst js_solve_bracket) simp

lemma js_final_capital_eq:
  assumes "0 \<le> js_lifeExpectancy p - js_currentAge p"
  shows "js_final_capital p = Math_max (Fin 0) (js_terminal_capital p (js_C1 (js_solve p)))"
proof -
  have n: "nat (js_lifeExpectancy p - js_currentAge p + 1) =
           Suc (nat (js_lifeExpectancy p - js_currentAge p))"
    using assms by linarith
  have "last (js_generateOptimizationData p) =
        js_point (js_initialCapital p) (js_C1 (js_solve p)) (js_growthRate p)
          (js_annualReturn p) (nat (js_lifeExpectancy p - js_currentAge p))"
    unfolding js_series_eq n by simp
  then show ?thesis
    unfolding js_final_capital_def js_terminal_capital_eq by (simp add: js_point_def)
qed

subsection \<open>Second model: facts about the concrete inputs\<close>

lemma is_double_int: "\<bar>n\<bar> < 2 ^ 53 \<Longrightarrow> is_double (of_int n)"
  using is_double_dyadic [of n 0] by simp

lemma million_le_max: "1000000 \<le> max_double"
  using max_double_ge by simp

lemma bracketed_plan_terminal:
  assumes "is_double x" and "0 \<le> x" and "x \<le> 1000000"
  shows "js_terminal_capital bracketed_plan (Fin x) = Fin (rn (1000000 - x))"
proof -
  have x: "fl x = Fin x"
    using assms million_le_max by (simp add: fl_finite is_double_rn)
  have d: "fl (1000000 - x) = Fin (rn (1000000 - x))"
    using assms million_le_max by (intro fl_finite) simp
  have "rn 0 \<le> rn (1000000 - x)" using assms by (intro rn_mono) simp
  moreover have "rn (1000000 - x) \<le> rn 1000000" using assms by (intro rn_mono) simp
  moreover have "rn 1000000 = 1000000" using is_double_rn [OF is_double_int [of 1000000]] by simp
  ultimately have "\<bar>rn (1000000 - x)\<bar> \<le> max_double" using million_le_max by simp
  then have r: "fl (rn (1000000 - x)) = Fin (rn (1000000 - x))"
    by (simp add: fl_finite rn_idem)
  have "js_terminal_capital bracketed_plan (Fin x) =
        js_mul (js_sub (Fin 1000000) (js_mul (Fin x) (Fin 1))) (js_add (Fin 1) (Fin 0))"
    by (simp add: js_terminal_capital_eq bracketed_plan_def)
  also have "\<dots> = Fin (rn (1000000 - x))"
    by (simp add: x d r fl_one js_sub_def)
  finally show ?thesis .
qed

lemma bracketed_plan_initial:
  "js_mul (Fin 1000000) (fl (1 / 100)) = Fin (rn (1000000 * rn (1 / 100)))"
  "js_mul (Fin 1000000) (fl (15 / 100)) = Fin (rn (1000000 * rn (15 / 100)))"
  "0 \<le> rn (1000000 * rn (1 / 100))" "rn (1000000 * rn (1 / 100)) \<le> 15625"
  "125000 \<le> rn (1000000 * rn (15 / 100))" "rn (1000000 * rn (15 / 100)) \<le> 250000"
proof -
  have k: "(1::real) \<le> 1000000" by simp
  show "js_mul (Fin 1000000) (fl (1 / 100)) = Fin (rn (1000000 * rn (1 / 100)))"
    "js_mul (Fin 1000000) (fl (15 / 100)) = Fin (rn (1000000 * rn (15 / 100)))"
    by (rule initial_bracket [OF k million_le_max])+
  show "0 \<le> rn (1000000 * rn (1 / 100))"
    using initial_bracket(3) [OF k million_le_max] by linarith
  have "1000000 * rn (1 / 100) \<le> 15625" using hundredth_bounds(2) by simp
  then have "rn (1000000 * rn (1 / 100)) \<le> rn 15625" by (rule rn_mono)
  then show "rn (1000000 * rn (1 / 100)) \<le> 15625"
    using is_double_rn [OF is_double_int [of 15625]] by simp
  have "125000 \<le> 1000000 * rn (15 / 100)" using fifteen_hundredths_bounds(1) by simp
  then have "rn 125000 \<le> rn (1000000 * rn (15 / 100))" by (rule rn_mono)
  then show "125000 \<le> rn (1000000 * rn (15 / 100))"
    using is_double_rn [OF is_double_int [of 125000]] by simp
  have "1000000 * rn (15 / 100) \<le> 250000" using fifteen_hundredths_bounds(2) by simp
  then have "rn (1000000 * rn (15 / 100)) \<le> rn 250000" by (rule rn_mono)
  then show "rn (1000000 * rn (15 / 100)) \<le> 250000"
    using is_double_rn [OF is_double_int [of 250000]] by simp
qed

lemma fl_double: "is_double x \<Longrightarrow> \<bar>x\<bar> \<le> max_double \<Longrightarrow> fl x = Fin x"
  by (simp add: fl_finite is_double_rn)

lemma js_growthRate_steep_plan: "js_growthRate steep_plan = Fin 1024"
proof -
  have a: "fl (1 / 1024) = Fin (1 / 1024)"
    using fl_dyadic [of 1 10] by simp
  have b: "fl 1024 = Fin 1024" using fl_int [of 1024] by simp
  have "js_beta steep_plan = Fin 1024"
    by (simp add: js_beta_def steep_plan_def a b)
  moreover have "js_add (Fin 1) (js_annualReturn steep_plan) = Fin 1"
    by (simp add: steep_plan_def fl_one)
  moreover have "js_div (Fin 1) (js_riskAversion steep_plan) = Fin 1"
    by (simp add: steep_plan_def fl_one)
  ultimately show ?thesis
    unfolding js_growthRate_def by (simp add: b Math_pow_def)
qed

lemma steep_plan_trajectory:
  assumes "is_double c" and "7812 \<le> c" and "c \<le> 250000"
  shows "\<exists>y. js_capital_after (Fin 1000000) (Fin c) (Fin 1024) (Fin 0) 2 = Fin y \<and> y < 0"
proof -
  have mx: "2 ^ 60 \<le> max_double" by (rule max_double_ge)
  have c: "fl c = Fin c" using assms mx by (intro fl_double) simp_all
  have k1: "fl (1000000 - c) = Fin (rn (1000000 - c))"
    using assms mx by (intro fl_finite) simp
  have "rn 0 \<le> rn (1000000 - c)" using assms by (intro rn_mono) simp
  moreover have "rn (1000000 - c) \<le> rn 1000000" using assms by (intro rn_mono) simp
  moreover have m: "rn 1000000 = 1000000"
    using is_double_rn [OF is_double_int [of 1000000]] by simp
  ultimately have r1: "0 \<le> rn (1000000 - c)" "rn (1000000 - c) \<le> 1000000" by simp_all
  then have k1': "fl (rn (1000000 - c)) = Fin (rn (1000000 - c))"
    using mx by (intro fl_double rn_is_double) simp
  have one: "js_capital_after (Fin 1000000) (Fin c) (Fin 1024) (Fin 0) (Suc 0) =
             Fin (rn (1000000 - c))"
    by (simp add: c k1 k1' fl_one js_sub_def)
  have p: "Math_pow (Fin 1024) (Fin (of_nat (Suc 0))) = Fin 1024"
    using fl_int [of 1024] by (simp add: Math_pow_def)
  have "\<bar>c * 1024\<bar> \<le> max_double" using assms mx by simp
  then have cg: "fl (c * 1024) = Fin (rn (c * 1024))" by (rule fl_finite)
  have "rn (7812 * 1024) \<le> rn (c * 1024)" using assms by (intro rn_mono) simp
  moreover have "rn (7812 * 1024) = 7812 * 1024"
    using is_double_rn [OF is_double_int [of "7812 * 1024"]] by simp
  moreover have "rn (c * 1024) \<le> rn (250000 * 1024)" using assms by (intro rn_mono) simp
  moreover have "rn (250000 * 1024) = 250000 * 1024"
    using is_double_rn [OF is_double_int [of "250000 * 1024"]] by simp
  ultimately have r2: "7812 * 1024 \<le> rn (c * 1024)" "rn (c * 1024) \<le> 250000 * 1024"
    by simp_all
  let ?d = "rn (1000000 - c) - rn (c * 1024)"
  have dr: "- (250000 * 1024) \<le> ?d" "?d \<le> - 6999488" using r1 r2 by simp_all
  then have "\<bar>?d\<bar> \<le> max_double" using mx by simp
  then have d: "fl ?d = Fin (rn ?d)" by (rule fl_finite)
  have "rn ?d \<le> rn (- 6999488)" using dr(2) by (rule rn_mono)
  moreover have "rn (- 6999488) = - 6999488"
    using is_double_rn [OF is_double_int [of "- 6999488"]] by simp
  moreover have "rn (- (250000 * 1024)) \<le> rn ?d" using dr(1) by (rule rn_mono)
  moreover have "rn (- (250000 * 1024)) = - (250000 * 1024)"
    using is_double_rn [OF is_double_int [of "- (250000 * 1024)"]] by simp
  ultimately have r3: "- (250000 * 1024) \<le> rn ?d" "rn ?d \<le> - 6999488" by simp_all
  then have d': "fl (rn ?d) = Fin (rn ?d)"
    using mx by (intro fl_double rn_is_double) simp
  have n: "(2::nat) = Suc (Suc 0)" by simp
  have "js_capital_after (Fin 1000000) (Fin c) (Fin 1024) (Fin 0) (Suc (Suc 0)) =
        js_mul (js_sub (Fin (rn (1000000 - c))) (js_mul (Fin c) (Fin 1024))) (js_add (Fin 1) (Fin 0))"
    by (subst js_capital_after.simps) (simp only: one p)
  also have "\<dots> = Fin (rn ?d)"
    by (simp add: cg d d' fl_one js_sub_def)
  finally show ?thesis using r3(2) unfolding n by (intro exI [of _ "rn ?d"]) simp
qed

lemma steep_plan_C1:
  "\<exists>c. js_C1 (js_solve steep_plan) = Fin c \<and> is_double c \<and> 7812 \<le> c \<and> c \<le> 250000"
proof -
  have K: "js_initialCapital steep_plan = Fin 1000000" by (simp add: steep_plan_def)
  have k: "(1::real) \<le> 1000000" by simp
  from js_bracket_bounds [OF K k million_le_max, of 50] obtain l h where
    b: "js_bracket steep_plan 50 = (Fin l, Fin h)" and d: "is_double l" "is_double h"
    and o: "rn (1000000 * rn (1 / 100)) \<le> l" "l \<le> h" "h \<le> rn (1000000 * rn (15 / 100))"
    by blast
  have "rn (7812 + 1 / 2) \<le> rn (1000000 * rn (1 / 100))"
    using hundredth_bounds(1) by (intro rn_mono) simp
  moreover have "rn (7812 + 1 / 2) = 7812 + 1 / 2"
    using is_double_rn [OF is_double_dyadic [of 15625 1]] by simp
  ultimately have lo: "7812 \<le> l" using o(1) by simp
  have hi: "h \<le> 250000" using o(3) bracketed_plan_initial(6) by linarith
  have e: "(50::nat) = Suc 49" by simp
  have "js_C1 (js_solve steep_plan) = Fin l \<or> js_C1 (js_solve steep_plan) = Fin h"
    using js_midpoint_in_next [of steep_plan 49] unfolding js_solve_C1 e [symmetric] b by simp
  then show ?thesis using d lo hi o(2) by auto
qed

lemma unreached_plan_terminal:
  assumes "is_double x" and "0 \<le> x" and "x \<le> 1000000"
  shows "js_terminal_capital unreached_plan (Fin x) = Fin (rn (1000000 - x))"
proof -
  have "js_terminal_capital unreached_plan (Fin x) = js_terminal_capital bracketed_plan (Fin x)"
    by (simp add: js_terminal_capital_def js_growthRate_def js_beta_def unreached_plan_def)
  then show ?thesis using bracketed_plan_terminal [OF assms] by simp
qed

lemma unreached_plan_final:
  "js_validated unreached_plan \<and>
   js_terminal_capital unreached_plan (Fin 800000) = js_inheritanceTarget unreached_plan \<and>
   (\<exists>f. js_final_capital unreached_plan = Fin f \<and> 750000 \<le> f)"
proof -
  let ?p = "unreached_plan"
  have v: "js_validated ?p"
    by (simp add: js_validated_def unreached_plan_def bracketed_plan_def)
  have "js_terminal_capital ?p (Fin 800000) = Fin (rn (1000000 - 800000))"
    using is_double_int [of 800000] by (intro unreached_plan_terminal) simp_all
  moreover have "rn 200000 = 200000" using is_double_rn [OF is_double_int [of 200000]] by simp
  ultimately have root: "js_terminal_capital ?p (Fin 800000) = js_inheritanceTarget ?p"
    by (simp add: unreached_plan_def)
  have K: "js_initialCapital ?p = Fin 1000000"
    by (simp add: unreached_plan_def bracketed_plan_def)
  have k: "(1::real) \<le> 1000000" by simp
  from js_bracket_bounds [OF K k million_le_max, of 50] obtain l h where
    b: "js_bracket ?p 50 = (Fin l, Fin h)" and d: "is_double l" "is_double h"
    and o: "rn (1000000 * rn (1 / 100)) \<le> l" "l \<le> h" "h \<le> rn (1000000 * rn (15 / 100))"
    by blast
  have r: "0 \<le> l" "h \<le> 250000" using o bracketed_plan_initial(3,6) by linarith+
  have e: "(50::nat) = Suc 49" by simp
  have "js_C1 (js_solve ?p) = Fin l \<or> js_C1 (js_solve ?p) = Fin h"
    using js_midpoint_in_next [of ?p 49] unfolding js_solve_C1 e [symmetric] b by simp
  then obtain c where c: "js_C1 (js_solve ?p) = Fin c" "is_double c" "0 \<le> c" "c \<le> 250000"
    using d r o(2) by auto
  have t: "js_terminal_capital ?p (Fin c) = Fin (rn (1000000 - c))"
    using c(2-4) by (intro unreached_plan_terminal) simp_all
  have "rn 750000 \<le> rn (1000000 - c)" using c(4) by (intro rn_mono) simp
  moreover have "rn 750000 = 750000" using is_double_rn [OF is_double_int [of 750000]] by simp
  ultimately have g: "750000 \<le> rn (1000000 - c)" by simp
  have T: "0 \<le> js_lifeExpectancy ?p - js_currentAge ?p"
    by (simp add: unreached_plan_def bracketed_plan_def)
  have "js_final_capital ?p = Fin (rn (1000000 - c))"
    unfolding js_final_capital_eq [OF T] c(1) t using g by simp
  with v root g show ?thesis by blast
qed

section \<open>The claims\<close>

text \<open>
  C1, as stated, fails: the bracket is fixed at 1% to 15% of the initial capital and is
  never widened, and no tolerance is configured. In the one-year plan with a bequest of
  200,000 the target is feasible (an initial consumption of 17,000,000 / 21 reaches it
  exactly), yet every midpoint leaves more than the target, \<open>low\<close> is raised 50 times,
  and the series ends with a capital of 892,500 + 147,000 / 2^50: more than 692,500 away
  from the target. (Rounding does not change this: over doubles, the like plan without
  return ends with at least 750,000, see \<open>unreached_plan_final\<close>.)
\<close>

theorem C1_counterexample:
  "validated (one_year_plan 200000) \<and>
   terminal_capital (one_year_plan 200000) (17000000 / 21) =
     inheritanceTarget (one_year_plan 200000) \<and>
   final_capital (one_year_plan 200000) = 892500 + 147000 / 2 ^ 50 \<and>
   692500 < \<bar>final_capital (one_year_plan 200000) - inheritanceTarget (one_year_plan 200000)\<bar>"
proof -
  let ?p = "one_year_plan 200000"
  have t: "inheritanceTarget ?p = 200000" and k: "initialCapital ?p = 1000000"
    and r: "annualReturn ?p = 5 / 100"
    and T: "0 \<le> lifeExpectancy ?p - currentAge ?p"
    by (simp_all add: one_year_plan_def)
  have v: "validated ?p" by (simp add: validated_one_year_plan)
  have root: "terminal_capital ?p (17000000 / 21) = inheritanceTarget ?p"
    by (simp add: t terminal_capital_one_year_plan)
  have "v_C1 (solve ?p) = initialCapital ?p * (15 / 100) - initialCapital ?p * (14 / 100) / 2 ^ 50"
    by (rule solve_C1_high_stuck) (simp_all add: t k r terminal_capital_one_year_plan)
  then have c: "v_C1 (solve ?p) = 150000 - 140000 / 2 ^ 50" by (simp add: k)
  have f: "final_capital ?p = 892500 + 147000 / 2 ^ 50"
    unfolding final_capital_eq [OF T] c terminal_capital_one_year_plan by simp
  have "692500 < \<bar>final_capital ?p - inheritanceTarget ?p\<bar>"
    unfolding f t by simp
  with v root f show ?thesis by blast
qed

text \<open>
  C1, amended (over doubles). For validated parameters with a finite initial capital of
  at least 1 whose target lies between the terminal capitals simulated at the two ends of
  the fixed bracket (1% and 15% of the initial capital): when the solver completes,
  \<open>low\<close> and \<open>high\<close> are finite, they lie within the initial bracket in this
  order, and they are at most \<open>(high0 - low0) / 2^50 + high0 / 2^52\<close> apart; the
  returned initial consumption is one of them; the terminal capital at \<open>low\<close> is at
  least the target and the one at \<open>high\<close> is not above it; the final capital is
  \<open>Math.max(0, K)\<close> for the terminal capital \<open>K\<close> of the returned consumption; and
  when these values are finite, the final capital differs from the target by at most the
  difference of the terminal capitals at \<open>low\<close> and at \<open>high\<close>.
\<close>

theorem C1_bracketed_convergence:
  assumes "js_validated p"
    and "js_initialCapital p = Fin k" and "1 \<le> k" and "k \<le> max_double"
    and "js_le (js_inheritanceTarget p)
           (js_terminal_capital p (js_mul (js_initialCapital p) (fl (1 / 100))))"
    and "js_le (js_terminal_capital p (js_mul (js_initialCapital p) (fl (15 / 100))))
           (js_inheritanceTarget p)"
  shows "\<exists>lo hi lo0 hi0.
           js_mul (js_initialCapital p) (fl (1 / 100)) = Fin lo0 \<and>
           js_mul (js_initialCapital p) (fl (15 / 100)) = Fin hi0 \<and>
           js_low (js_solve p) = Fin lo \<and> js_high (js_solve p) = Fin hi \<and>
           lo0 \<le> lo \<and> lo \<le> hi \<and> hi \<le> hi0 \<and>
           hi - lo \<le> (hi0 - lo0) / 2 ^ 50 + hi0 / 2 ^ 52 \<and>
           (js_C1 (js_solve p) = Fin lo \<or> js_C1 (js_solve p) = Fin hi) \<and>
           js_le (js_inheritanceTarget p) (js_terminal_capital p (Fin lo)) \<and>
           \<not> js_gt (js_terminal_capital p (Fin hi)) (js_inheritanceTarget p) \<and>
           js_final_capital p = Math_max (Fin 0) (js_terminal_capital p (js_C1 (js_solve p))) \<and>
           (\<forall>a b f t.
              js_terminal_capital p (Fin lo) = Fin a \<and> js_terminal_capital p (Fin hi) = Fin b \<and>
              js_final_capital p = Fin f \<and> js_inheritanceTarget p = Fin t \<longrightarrow>
              \<bar>f - t\<bar> \<le> a - b)"
proof -
  let ?l0 = "rn (k * rn (1 / 100))" and ?h0 = "rn (k * rn (15 / 100))"
  let ?tc = "js_terminal_capital p" and ?tg = "js_inheritanceTarget p"
  have i1: "js_mul (js_initialCapital p) (fl (1 / 100)) = Fin ?l0"
    and i2: "js_mul (js_initialCapital p) (fl (15 / 100)) = Fin ?h0"
    unfolding assms(2) by (rule initial_bracket [OF assms(3,4)])+
  from js_bracket_bounds [OF assms(2-4), of 50] obtain lo hi where
    b: "js_bracket p 50 = (Fin lo, Fin hi)"
    and o: "?l0 \<le> lo" "lo \<le> hi" "hi \<le> ?h0"
    and w: "hi - lo \<le> (?h0 - ?l0) / 2 ^ 50 + ?h0 / 2 ^ 52 * (1 - 1 / 2 ^ 50)"
    by blast
  have h0: "0 \<le> ?h0" using initial_bracket(3,4) [OF assms(3,4)] by linarith
  have "?h0 / 2 ^ 52 * (1 - 1 / 2 ^ 50) \<le> ?h0 / 2 ^ 52 * 1"
    using h0 by (intro mult_left_mono) simp_all
  with w have w': "hi - lo \<le> (?h0 - ?l0) / 2 ^ 50 + ?h0 / 2 ^ 52" by simp
  have low: "js_low (js_solve p) = Fin lo" and high: "js_high (js_solve p) = Fin hi"
    by (simp_all add: js_solve_low js_solve_high b)
  have e: "(50::nat) = Suc 49" by simp
  have c: "js_C1 (js_solve p) = Fin lo \<or> js_C1 (js_solve p) = Fin hi"
    using js_midpoint_in_next [of p 49] unfolding js_solve_C1 e [symmetric] b by simp
  have s0: "js_le ?tg (?tc (fst (js_bracket p 0)))"
    "\<not> js_gt (?tc (snd (js_bracket p 0))) ?tg"
    using assms(5) js_le_not_gt [OF assms(6)] by simp_all
  have s: "js_le ?tg (?tc (Fin lo))" "\<not> js_gt (?tc (Fin hi)) ?tg"
    using js_bracket_sign [OF s0, of 50] unfolding b by simp_all
  have T: "0 \<le> js_lifeExpectancy p - js_currentAge p"
    using assms(1) by (simp add: js_validated_def)
  have f: "js_final_capital p = Math_max (Fin 0) (?tc (js_C1 (js_solve p)))"
    using T by (rule js_final_capital_eq)
  have tg: "js_le (Fin 0) ?tg" using assms(1) by (simp add: js_validated_def)
  have q: "\<bar>f' - t\<bar> \<le> a - b'"
    if "?tc (Fin lo) = Fin a" "?tc (Fin hi) = Fin b'" "js_final_capital p = Fin f'" "?tg = Fin t"
    for a b' f' t
  proof -
    have t: "0 \<le> t" "t \<le> a" "b' \<le> t" using tg s that by simp_all
    from c show ?thesis
    proof
      assume "js_C1 (js_solve p) = Fin lo"
      then have "Fin f' = Math_max (Fin 0) (Fin a)" using f that by simp
      then have "f' = a" using t by (simp split: if_splits)
      then show ?thesis using t by simp
    next
      assume "js_C1 (js_solve p) = Fin hi"
      then have "Fin f' = Math_max (Fin 0) (Fin b')" using f that by simp
      then have "f' = max 0 b'" by (simp split: if_splits)
      then show ?thesis using t by simp
    qed
  qed
  show ?thesis
    using i1 i2 low high o w' c s f q
    by (intro exI [of _ lo] exI [of _ hi] exI [of _ ?l0] exI [of _ ?h0]) blast
qed

theorem C1_bracketed_convergence_witness:
  "\<exists>lo hi a b f.
     js_low (js_solve bracketed_plan) = Fin lo \<and> js_high (js_solve bracketed_plan) = Fin hi \<and>
     lo \<le> hi \<and> hi - lo \<le> 250000 / 2 ^ 50 + 250000 / 2 ^ 52 \<and>
     js_terminal_capital bracketed_plan (Fin lo) = Fin a \<and>
     js_terminal_capital bracketed_plan (Fin hi) = Fin b \<and>
     js_final_capital bracketed_plan = Fin f \<and> \<bar>f - 875000\<bar> \<le> a - b"
proof -
  let ?p = "bracketed_plan"
  let ?l0 = "rn (1000000 * rn (1 / 100))" and ?h0 = "rn (1000000 * rn (15 / 100))"
  note ib = bracketed_plan_initial
  have K: "js_initialCapital ?p = Fin 1000000" and tg: "js_inheritanceTarget ?p = Fin 875000"
    by (simp_all add: bracketed_plan_def)
  have v: "js_validated ?p" by (simp add: js_validated_def bracketed_plan_def)
  have k: "(1::real) \<le> 1000000" by simp
  have t1: "js_terminal_capital ?p (Fin ?l0) = Fin (rn (1000000 - ?l0))"
    using ib(3,4) by (intro bracketed_plan_terminal rn_is_double) simp_all
  have t2: "js_terminal_capital ?p (Fin ?h0) = Fin (rn (1000000 - ?h0))"
    using ib(5,6) by (intro bracketed_plan_terminal rn_is_double) simp_all
  have "rn 875000 \<le> rn (1000000 - ?l0)" using ib(4) by (intro rn_mono) simp
  then have b1: "875000 \<le> rn (1000000 - ?l0)"
    using is_double_rn [OF is_double_int [of 875000]] by simp
  have "rn (1000000 - ?h0) \<le> rn 875000" using ib(5) by (intro rn_mono) simp
  then have b2: "rn (1000000 - ?h0) \<le> 875000"
    using is_double_rn [OF is_double_int [of 875000]] by simp
  have h1: "js_le (js_inheritanceTarget ?p)
      (js_terminal_capital ?p (js_mul (js_initialCapital ?p) (fl (1 / 100))))"
    unfolding K tg ib(1) t1 using b1 by simp
  have h2: "js_le (js_terminal_capital ?p (js_mul (js_initialCapital ?p) (fl (15 / 100))))
      (js_inheritanceTarget ?p)"
    unfolding K tg ib(2) t2 using b2 by simp
  from C1_bracketed_convergence [OF v K k million_le_max h1 h2]
  obtain lo hi lo0 hi0 where
    i: "js_mul (js_initialCapital ?p) (fl (1 / 100)) = Fin lo0"
       "js_mul (js_initialCapital ?p) (fl (15 / 100)) = Fin hi0"
    and lh: "js_low (js_solve ?p) = Fin lo" "js_high (js_solve ?p) = Fin hi"
    and o: "lo0 \<le> lo" "lo \<le> hi" "hi \<le> hi0"
    and w: "hi - lo \<le> (hi0 - lo0) / 2 ^ 50 + hi0 / 2 ^ 52"
    and c: "js_C1 (js_solve ?p) = Fin lo \<or> js_C1 (js_solve ?p) = Fin hi"
    and f: "js_final_capital ?p = Math_max (Fin 0) (js_terminal_capital ?p (js_C1 (js_solve ?p)))"
    and q: "\<forall>a b f t.
              js_terminal_capital ?p (Fin lo) = Fin a \<and> js_terminal_capital ?p (Fin hi) = Fin b \<and>
              js_final_capital ?p = Fin f \<and> js_inheritanceTarget ?p = Fin t \<longrightarrow>
              \<bar>f - t\<bar> \<le> a - b"
    by blast
  have lo0: "lo0 = ?l0" and hi0: "hi0 = ?h0" using i unfolding K ib(1,2) by simp_all
  from js_bracket_bounds [OF K k million_le_max, of 50] lh
  have d: "is_double lo" "is_double hi"
    unfolding js_solve_low js_solve_high by auto
  have r: "0 \<le> lo" "lo \<le> 1000000" "0 \<le> hi" "hi \<le> 1000000"
    using o ib(3,6) unfolding lo0 hi0 by linarith+
  have ta: "js_terminal_capital ?p (Fin lo) = Fin (rn (1000000 - lo))"
    using d(1) r(1,2) by (rule bracketed_plan_terminal)
  have tb: "js_terminal_capital ?p (Fin hi) = Fin (rn (1000000 - hi))"
    using d(2) r(3,4) by (rule bracketed_plan_terminal)
  from c obtain x where "js_terminal_capital ?p (js_C1 (js_solve ?p)) = Fin x"
    using ta tb by auto
  then have "js_final_capital ?p = Fin (max 0 x)"
    unfolding f by (simp add: max_def)
  then obtain f' where f': "js_final_capital ?p = Fin f'" by blast
  have e: "\<bar>f' - 875000\<bar> \<le> rn (1000000 - lo) - rn (1000000 - hi)"
    using q ta tb f' tg by blast
  have "(hi0 - lo0) / 2 ^ 50 \<le> 250000 / 2 ^ 50"
    using ib(3,6) unfolding lo0 hi0 by (intro divide_right_mono) simp_all
  moreover have "hi0 / 2 ^ 52 \<le> 250000 / 2 ^ 52"
    using ib(6) unfolding hi0 by (intro divide_right_mono) simp_all
  ultimately have w': "hi - lo \<le> 250000 / 2 ^ 50 + 250000 / 2 ^ 52" using w by linarith
  show ?thesis
    using lh o(2) w' ta tb f' e
    by (intro exI [of _ lo] exI [of _ hi] exI [of _ "rn (1000000 - lo)"]
          exI [of _ "rn (1000000 - hi)"] exI [of _ f']) blast
qed

text \<open>
  C2. The solver starts from the bracket \<open>low = K0 * 1%\<close>, \<open>high = K0 * 15%\<close>
  and runs 50 steps, each taking the midpoint, simulating, and raising \<open>low\<close> when the
  terminal capital exceeds the target and lowering \<open>high\<close> otherwise (\<open>bracket\<close>).
  When the loop is left, \<open>low\<close> and \<open>high\<close> are the bracket after 50 steps and
  \<open>C1\<close> is the midpoint taken in the 50th step, that of the bracket after 49 steps;
  the series is built with this \<open>C1\<close> as initial consumption.
\<close>

theorem C2_bisection_solver:
  "solve p =
     \<lparr>v_K = terminal_capital p (midpoint (bracket p 49)),
      v_C1 = midpoint (bracket p 49),
      v_low = fst (bracket p 50), v_high = snd (bracket p 50)\<rparr> \<and>
   generateOptimizationData p =
     map (point (initialCapital p) (midpoint (bracket p 49)) (growthRate p) (annualReturn p))
       [0 ..< nat (lifeExpectancy p - currentAge p + 1)]"
proof -
  have "v_C1 (solve p) = midpoint (bracket p 49)"
    by (subst solve_bracket) simp
  then show ?thesis
    using solve_bracket [of p] series_eq [of p] by (simp only:)
qed

text \<open>
  C3. The inner loop starts at \<open>K = initial_capital\<close> and, for the periods
  \<open>t = 0 .. T - 1\<close>, subtracts \<open>C1 * g^t\<close> and multiplies by \<open>1 + r\<close>; what it
  leaves in \<open>K\<close> is the capital after exactly \<open>T\<close> such updates, so period \<open>T\<close>
  itself consumes nothing. This holds for every candidate \<open>C1\<close> and every input (with
  a horizon below 1 there is no update and \<open>K\<close> stays the initial capital).
\<close>

theorem C3_terminal_capital:
  "terminal_capital p C1 =
   capital_after (initialCapital p) C1 (growthRate p) (annualReturn p)
     (nat (lifeExpectancy p - currentAge p))"
  by (rule terminal_capital_eq)

text \<open>
  C4, as stated, fails on doubles: the terminal capital is not strictly decreasing. In
  the rounding plan the candidates \<open>1\<close> and \<open>1 + 2^-52\<close> are different doubles,
  yet \<open>1000000 - C1\<close> rounds to \<open>999999\<close> for both, and both leave the terminal
  capital \<open>999999 * 17/16\<close>.
\<close>

theorem C4_counterexample:
  "js_validated rounding_plan \<and>
   js_gt (Fin (1 + 1 / 2 ^ 52)) (Fin 1) \<and>
   js_terminal_capital rounding_plan (Fin 1) = Fin (16999983 / 16) \<and>
   js_terminal_capital rounding_plan (Fin (1 + 1 / 2 ^ 52)) = Fin (16999983 / 16) \<and>
   \<not> js_gt (js_terminal_capital rounding_plan (Fin 1))
          (js_terminal_capital rounding_plan (Fin (1 + 1 / 2 ^ 52)))"
proof -
  have v: "js_validated rounding_plan"
    by (simp add: js_validated_def rounding_plan_def)
  have a: "js_terminal_capital rounding_plan (Fin 1) = Fin (16999983 / 16)"
    unfolding rounding_plan_terminal mul_one_exact sub_exact growth_factor_exact product_exact ..
  have b: "js_terminal_capital rounding_plan (Fin (1 + 1 / 2 ^ 52)) = Fin (16999983 / 16)"
    unfolding rounding_plan_terminal mul_next_exact sub_rounded growth_factor_exact product_exact ..
  show ?thesis unfolding a b using v by simp
qed

text \<open>
  C4, amended (over doubles). For \<open>r > -1\<close>, \<open>rho > -1\<close>, \<open>sigma > 0\<close> and a
  horizon of at least one period, the terminal capital does not increase with the
  candidate: for candidates \<open>C1 < C1'\<close> whose terminal capitals are not NaN, the
  terminal capital of \<open>C1'\<close> is at most that of \<open>C1\<close>.
\<close>

theorem C4_non_increasing:
  assumes "js_gt (js_annualReturn p) (Fin (- 1))" and "js_gt (js_discountRate p) (Fin (- 1))"
    and "js_gt (js_riskAversion p) (Fin 0)"
    and "1 \<le> js_lifeExpectancy p - js_currentAge p"
    and "js_gt C1' C1"
    and "js_terminal_capital p C1 \<noteq> NaN" and "js_terminal_capital p C1' \<noteq> NaN"
  shows "js_le (js_terminal_capital p C1') (js_terminal_capital p C1)"
  using assms(1,2) js_gt_le [OF assms(5)] assms(6,7) by (rule js_terminal_capital_antimono)

theorem C4_non_increasing_witness:
  "js_le (js_terminal_capital rounding_plan (Fin (1 + 1 / 2 ^ 52)))
         (js_terminal_capital rounding_plan (Fin 1))"
proof -
  have a: "js_terminal_capital rounding_plan (Fin 1) = Fin (16999983 / 16)"
    unfolding rounding_plan_terminal mul_one_exact sub_exact growth_factor_exact product_exact ..
  have b: "js_terminal_capital rounding_plan (Fin (1 + 1 / 2 ^ 52)) = Fin (16999983 / 16)"
    unfolding rounding_plan_terminal mul_next_exact sub_rounded growth_factor_exact product_exact ..
  have h: "js_gt (js_annualReturn rounding_plan) (Fin (- 1))"
    "js_gt (js_discountRate rounding_plan) (Fin (- 1))"
    "js_gt (js_riskAversion rounding_plan) (Fin 0)"
    "1 \<le> js_lifeExpectancy rounding_plan - js_currentAge rounding_plan"
    by (simp_all add: rounding_plan_def)
  have c: "js_gt (Fin (1 + 1 / 2 ^ 52)) (Fin 1)" by simp
  have n: "js_terminal_capital rounding_plan (Fin 1) \<noteq> NaN"
    "js_terminal_capital rounding_plan (Fin (1 + 1 / 2 ^ 52)) \<noteq> NaN"
    by (simp_all only: a b number.distinct not_False_eq_True)
  show ?thesis by (rule C4_non_increasing [OF h c n])
qed

text \<open>
  C5. On the validated domain the discount factor is \<open>1 / (1 + rho)\<close> and the growth
  rate is \<open>((1 / (1 + rho)) * (1 + r))\<close> to the power \<open>1 / sigma\<close>; two inputs that
  agree on \<open>r\<close>, \<open>rho\<close> and \<open>sigma\<close> have the same discount factor and the
  same growth rate, whatever their capital and bequest.
\<close>

theorem C5_growth_rate:
  assumes "- 1 < annualReturn p" and "- 1 < discountRate p" and "0 < riskAversion p"
  shows "beta p = 1 / (1 + discountRate p) \<and>
         growthRate p =
           ((1 / (1 + discountRate p)) * (1 + annualReturn p)) powr (1 / riskAversion p) \<and>
         (\<forall>q::params. annualReturn q = annualReturn p \<and> discountRate q = discountRate p \<and>
               riskAversion q = riskAversion p \<longrightarrow>
               beta q = beta p \<and> growthRate q = growthRate p)"
proof (intro conjI allI impI)
  show "beta p = 1 / (1 + discountRate p)"
    by (simp only: beta_def)
  show "growthRate p =
        ((1 / (1 + discountRate p)) * (1 + annualReturn p)) powr (1 / riskAversion p)"
    by (simp only: growthRate_def beta_def)
next
  fix q :: params
  assume "annualReturn q = annualReturn p \<and> discountRate q = discountRate p \<and>
          riskAversion q = riskAversion p"
  then have e: "annualReturn q = annualReturn p" "discountRate q = discountRate p"
    "riskAversion q = riskAversion p" by blast+
  show "beta q = beta p" by (simp only: beta_def e)
  show "growthRate q = growthRate p" by (simp only: growthRate_def beta_def e)
qed

theorem C5_growth_rate_witness:
  "beta scenario_A = 100 / 103 \<and> growthRate scenario_A = (105 / 103) powr (1 / 2) \<and>
   growthRate (scenario_A\<lparr>initialCapital := 5, inheritanceTarget := 7\<rparr>) = growthRate scenario_A"
proof -
  let ?q = "scenario_A\<lparr>initialCapital := 5, inheritanceTarget := 7\<rparr>"
  have h: "- 1 < annualReturn scenario_A" "- 1 < discountRate scenario_A"
    "0 < riskAversion scenario_A"
    by (simp_all add: scenario_A_def)
  have b: "1 / (1 + discountRate scenario_A) = 100 / 103"
    by (simp add: scenario_A_def)
  have g: "1 / (1 + discountRate scenario_A) * (1 + annualReturn scenario_A) = 105 / 103"
    by (simp add: scenario_A_def)
  have s: "riskAversion scenario_A = 2" by (simp add: scenario_A_def)
  have q: "annualReturn ?q = annualReturn scenario_A \<and>
     discountRate ?q = discountRate scenario_A \<and>
     riskAversion ?q = riskAversion scenario_A"
    by simp
  note t = C5_growth_rate [OF h]
  have 1: "beta scenario_A = 100 / 103"
    using t b by (simp only:)
  have 2: "growthRate scenario_A = (105 / 103) powr (1 / 2)"
    using t by (simp only: g s)
  have 3: "growthRate ?q = growthRate scenario_A"
    using t q by blast
  from 1 2 3 show ?thesis by blast
qed




text \<open>
  C7, as stated, fails: the function validates nothing. In Scenario D
  (\<open>life_expectancy = 30\<close>, \<open>current_age = 45\<close>) it returns the empty series and
  reports no error.
\<close>

theorem C7_counterexample:
  "lifeExpectancy scenario_D \<le> currentAge scenario_D \<and>
   generateOptimizationData_outcome scenario_D = Inr []"
proof -
  have "length (generateOptimizationData scenario_D) = 0"
    unfolding series_length by (simp add: scenario_D_def scenario_A_def)
  then show ?thesis
    by (simp add: generateOptimizationData_outcome_def scenario_D_def scenario_A_def)
qed

text \<open>
  C7, amended. No input is rejected: on every input, also one the specification calls
  invalid, the function returns a series and no \<open>InvalidParameter\<close>; it uses the
  parameters as given, with the horizon \<open>life_expectancy - current_age\<close>, and the
  series holds the periods \<open>0 .. horizon\<close> (none when the horizon is negative).
\<close>

theorem C7_no_validation:
  "generateOptimizationData_outcome p = Inr (generateOptimizationData p) \<and>
   map period (generateOptimizationData p) = [0 .. lifeExpectancy p - currentAge p]"
  by (simp only: generateOptimizationData_outcome_def series_periods)

text \<open>
  C8. For every validated input with horizon \<open>T = life_expectancy - current_age\<close> the
  series has exactly \<open>T + 1\<close> entries, and their period indices are
  \<open>0, 1, ..., T\<close>, strictly increasing.
\<close>

theorem C8_series_length:
  assumes "validated p"
  shows "int (length (generateOptimizationData p)) = lifeExpectancy p - currentAge p + 1 \<and>
         map period (generateOptimizationData p) = [0 .. lifeExpectancy p - currentAge p] \<and>
         sorted_wrt (<) (map period (generateOptimizationData p))"
proof -
  have "int (length (generateOptimizationData p)) = lifeExpectancy p - currentAge p + 1"
    using validated_horizon [OF assms] by (simp add: series_length)
  moreover have "sorted_wrt (<) [0 .. lifeExpectancy p - currentAge p]"
    by (simp add: strict_sorted_iff)
  ultimately show ?thesis by (simp only: series_periods)
qed

theorem C8_series_length_witness:
  "length (generateOptimizationData scenario_A) = 51 \<and>
   map period (generateOptimizationData (one_year_plan 200000)) = [0, 1]"
proof -
  have "validated scenario_A" by (simp add: validated_def scenario_A_def)
  from C8_series_length [OF this]
  have "int (length (generateOptimizationData scenario_A)) = 51"
    by (simp add: scenario_A_def)
  then have a: "length (generateOptimizationData scenario_A) = 51" by simp
  have "validated (one_year_plan 200000)" by (simp add: validated_one_year_plan)
  from C8_series_length [OF this]
  have b: "map period (generateOptimizationData (one_year_plan 200000)) = [0, 1]"
    by (simp add: one_year_plan_def upto.simps)
  from a b show ?thesis by simp
qed

text \<open>
  C9, as stated, fails on doubles: a recorded capital can be NaN, which is not
  non-negative. In the plan with a return of \<open>-2\<close> the growth rate is NaN, the
  consumption of period 1 is NaN, and the entry of period 2 records the capital
  \<open>Math.max(0, NaN) = NaN\<close>.
\<close>

theorem C9_counterexample:
  "js_generateOptimizationData nan_plan ! 2 =
     \<lparr>js_period = 2, js_capital = NaN, js_consumption = NaN\<rparr> \<and>
   \<not> js_le (Fin 0) (js_capital (js_generateOptimizationData nan_plan ! 2))"
proof -
  have t: "(0::int) \<le> 2" "2 \<le> js_lifeExpectancy nan_plan - js_currentAge nan_plan"
    by (simp_all add: nan_plan_def)
  have n: "nat 2 = Suc (Suc 0)" by simp
  have "js_generateOptimizationData nan_plan ! nat 2 =
        js_point (js_initialCapital nan_plan) (js_C1 (js_solve nan_plan)) NaN
          (js_annualReturn nan_plan) (Suc (Suc 0))"
    using js_series_nth [OF t] by (simp only: js_growthRate_nan_plan n)
  also have "\<dots> = \<lparr>js_period = 2, js_capital = NaN, js_consumption = NaN\<rparr>"
    unfolding js_point_def js_capital_after_NaN_growth by (simp add: Math_pow_def)
  finally show ?thesis by simp
qed

text \<open>
  C9, amended (over doubles). On every input the entry of period \<open>t\<close> records
  \<open>Math.max(0, K)\<close> for the capital \<open>K\<close> of the unclamped trajectory and the
  consumption \<open>C1 * Math.pow(g, t)\<close> as it is; a recorded capital is NaN exactly when
  \<open>K\<close> is NaN, and is at least 0 otherwise, also when \<open>K\<close> is negative. (In the
  steep plan, which is validated, the trajectory is negative in period 2 and the series
  shows 0.)
\<close>

theorem C9_capital_clamped_unless_NaN:
  "(\<forall>e \<in> set (js_generateOptimizationData p). js_capital e = NaN \<or> js_le (Fin 0) (js_capital e)) \<and>
   (\<forall>t. 0 \<le> t \<and> t \<le> js_lifeExpectancy p - js_currentAge p \<longrightarrow>
      js_generateOptimizationData p ! nat t =
        \<lparr>js_period = t,
         js_capital = Math_max (Fin 0)
           (js_capital_after (js_initialCapital p) (js_C1 (js_solve p)) (js_growthRate p)
              (js_annualReturn p) (nat t)),
         js_consumption = js_mul (js_C1 (js_solve p)) (Math_pow (js_growthRate p) (Fin (of_int t)))\<rparr> \<and>
      (js_capital (js_generateOptimizationData p ! nat t) = NaN \<longleftrightarrow>
       js_capital_after (js_initialCapital p) (js_C1 (js_solve p)) (js_growthRate p)
         (js_annualReturn p) (nat t) = NaN))"
proof (intro conjI ballI allI impI)
  fix e
  assume "e \<in> set (js_generateOptimizationData p)"
  then obtain n where
    e: "e = js_point (js_initialCapital p) (js_C1 (js_solve p)) (js_growthRate p)
              (js_annualReturn p) n"
    unfolding js_series_eq by auto
  show "js_capital e = NaN \<or> js_le (Fin 0) (js_capital e)"
    unfolding e js_point_def using Math_max_zero_nonneg by auto
next
  fix t :: int
  assume "0 \<le> t \<and> t \<le> js_lifeExpectancy p - js_currentAge p"
  then have t: "0 \<le> t" "t \<le> js_lifeExpectancy p - js_currentAge p" by blast+
  show "js_generateOptimizationData p ! nat t =
        \<lparr>js_period = t,
         js_capital = Math_max (Fin 0)
           (js_capital_after (js_initialCapital p) (js_C1 (js_solve p)) (js_growthRate p)
              (js_annualReturn p) (nat t)),
         js_consumption = js_mul (js_C1 (js_solve p)) (Math_pow (js_growthRate p) (Fin (of_int t)))\<rparr>"
    unfolding js_series_nth [OF t] js_point_def using t(1) by simp
  show "js_capital (js_generateOptimizationData p ! nat t) = NaN \<longleftrightarrow>
       js_capital_after (js_initialCapital p) (js_C1 (js_solve p)) (js_growthRate p)
         (js_annualReturn p) (nat t) = NaN"
    unfolding js_series_nth [OF t] js_point_def by simp
qed

theorem C9_capital_clamped_unless_NaN_witness:
  "(\<exists>c y. js_C1 (js_solve steep_plan) = Fin c \<and>
      js_capital_after (Fin 1000000) (Fin c) (Fin 1024) (Fin 0) 2 = Fin y \<and> y < 0 \<and>
      js_capital (js_generateOptimizationData steep_plan ! 2) = Fin 0) \<and>
   js_capital (js_generateOptimizationData nan_plan ! 2) = NaN"
proof -
  have t: "(0::int) \<le> 2 \<and> 2 \<le> js_lifeExpectancy steep_plan - js_currentAge steep_plan"
    and f: "js_initialCapital steep_plan = Fin 1000000" "js_annualReturn steep_plan = Fin 0"
    by (simp_all add: steep_plan_def)
  from steep_plan_C1 obtain c where
    c: "js_C1 (js_solve steep_plan) = Fin c" "is_double c" "7812 \<le> c" "c \<le> 250000"
    by blast
  from steep_plan_trajectory [OF c(2-4)] obtain y where
    y: "js_capital_after (Fin 1000000) (Fin c) (Fin 1024) (Fin 0) 2 = Fin y" "y < 0"
    by blast
  have n: "nat 2 = 2" by simp
  have "js_capital (js_generateOptimizationData steep_plan ! nat 2) =
        Math_max (Fin 0) (js_capital_after (js_initialCapital steep_plan)
          (js_C1 (js_solve steep_plan)) (js_growthRate steep_plan)
          (js_annualReturn steep_plan) (nat 2))"
    using C9_capital_clamped_unless_NaN [of steep_plan, THEN conjunct2, THEN spec, of 2] t
    by simp
  then have "js_capital (js_generateOptimizationData steep_plan ! 2) = Fin 0"
    unfolding n f c(1) js_growthRate_steep_plan y(1) using y(2) by simp
  with c(1) y have a: "\<exists>c y. js_C1 (js_solve steep_plan) = Fin c \<and>
      js_capital_after (Fin 1000000) (Fin c) (Fin 1024) (Fin 0) 2 = Fin y \<and> y < 0 \<and>
      js_capital (js_generateOptimizationData steep_plan ! 2) = Fin 0"
    by blast
  let ?g = "js_growthRate nan_plan" and ?c = "js_C1 (js_solve nan_plan)"
  have t2: "(0::int) \<le> 2 \<and> 2 \<le> js_lifeExpectancy nan_plan - js_currentAge nan_plan"
    by (simp add: nan_plan_def)
  have m: "nat 2 = Suc (Suc 0)" by simp
  have eq: "js_capital (js_generateOptimizationData nan_plan ! nat 2) = NaN \<longleftrightarrow>
        js_capital_after (js_initialCapital nan_plan) ?c ?g (js_annualReturn nan_plan) (nat 2) = NaN"
    using C9_capital_clamped_unless_NaN [of nan_plan, THEN conjunct2, THEN spec, of 2] t2
    by blast
  have ca: "js_capital_after (js_initialCapital nan_plan) ?c ?g (js_annualReturn nan_plan) (nat 2) = NaN"
    unfolding js_growthRate_nan_plan m by (rule js_capital_after_NaN_growth)
  have "js_capital (js_generateOptimizationData nan_plan ! nat 2) = NaN"
    using eq ca by blast
  then have b: "js_capital (js_generateOptimizationData nan_plan ! 2) = NaN"
    by simp
  from a b show ?thesis by blast
qed



end
